theory Spec2Isabelle
  imports Main
begin

section \<open>Constants and host collaborators of \<open>src/date-tz.ts\<close>\<close>

text \<open>
  The embedding follows \<open>src/date-tz.ts\<close>, the module exercised by \<open>date-tz.spec.ts\<close>.
  JavaScript numbers are modelled as mathematical integers: timestamps, offsets and
  calendar fields stay far below \<open>2^53\<close>, and \<open>NaN\<close>, infinities and fractions are outside
  the model, except for \<open>new_DateTz_number\<close>, the constructor on a number that may be
  \<open>NaN\<close>. \<open>Math.floor (a / b)\<close> for positive \<open>b\<close> is \<open>a div b\<close> on \<open>int\<close>.
\<close>

definition MS_PER_SECOND :: int where "MS_PER_SECOND = 1000"
definition MS_PER_MINUTE :: int where "MS_PER_MINUTE = MS_PER_SECOND * 60"
definition MS_PER_HOUR :: int where "MS_PER_HOUR = MS_PER_MINUTE * 60"
definition MS_PER_DAY :: int where "MS_PER_DAY = MS_PER_HOUR * 24"
definition MS_PER_WEEK :: int where "MS_PER_WEEK = MS_PER_DAY * 7"

record TimezoneOffset =
  sdt :: int
  dst :: int

record OffsetInfo =
  offsetSeconds :: int
  isDst :: bool

record LocalDateTime =
  year :: int
  month :: int
  day :: int
  hour :: int
  minute :: int
  second :: int

text \<open>
  What the module takes from outside itself: the \<open>timezones\<close> table of \<open>./timezones\<close>
  (not part of the sources at hand, so a parameter), and the platform services
  \<open>Intl.DateTimeFormat\<close>, \<open>Intl.getCanonicalLocales\<close>, \<open>toLocaleString\<close> and \<open>Number\<close>
  on strings that are not plain digit runs. \<open>intl_parts tz t\<close> stands for the fields
  that \<open>formatToParts\<close> yields for instant \<open>t\<close> in zone \<open>tz\<close>; \<open>None\<close> is the case in
  which the \<open>try\<close> block of \<open>computeIntlOffsetSeconds\<close> throws.
\<close>

record host =
  timezones :: "string \<Rightarrow> TimezoneOffset option"
  intl_parts :: "string \<Rightarrow> int \<Rightarrow> LocalDateTime option"
  month_long_name :: "string \<Rightarrow> int \<Rightarrow> int \<Rightarrow> string"
  canonical_locale :: "string \<Rightarrow> bool"
  number_of_text :: "string \<Rightarrow> int option"

datatype error =
    InvalidTimezone string
  | IncomparableTimezones
  | MissingMeridiem
  | PatternMismatch string nat
  | InvalidDateString
  | InvalidNumericValue
  | TimezoneIdNotFound
  | LocaleMonthUnsupported
  | UnconsumedInput
  | MissingAmPmMarker
  | UnsupportedUnit string
  | UnsupportedGranularity string
  | UnsupportedDurationUnit string
  | HydrateNeedsObject
  | HydrateNeedsTimestamp

definition ensureTimezone :: "host \<Rightarrow> string \<Rightarrow> error + TimezoneOffset" where
  "ensureTimezone h ident =
     (case timezones h ident of
        None \<Rightarrow> Inl (InvalidTimezone ident)
      | Some info \<Rightarrow> Inr info)"

definition floorToMinute :: "int \<Rightarrow> int" where
  "floorToMinute t = (t div MS_PER_MINUTE) * MS_PER_MINUTE"

definition isLeapYear :: "int \<Rightarrow> bool" where
  "isLeapYear y \<longleftrightarrow> (y mod 4 = 0 \<and> y mod 100 \<noteq> 0) \<or> y mod 400 = 0"

text \<open>
  \<open>daysPerMonth[month]\<close> is \<open>undefined\<close> outside \<open>0..11\<close>; the only reader, \<open>clampDay\<close>,
  then computes \<open>Math.min (day, undefined)\<close>, which is \<open>NaN\<close>. The model returns \<open>None\<close>.
\<close>

definition daysPerMonth :: "int list" where
  "daysPerMonth = [31, 28, 31, 30, 31, 30, 31, 31, 30, 31, 30, 31]"

definition daysInMonth :: "int \<Rightarrow> int \<Rightarrow> int option" where
  "daysInMonth y m =
     (if m = 1 then Some (if isLeapYear y then 29 else 28)
      else if 0 \<le> m \<and> m < 12 then Some (daysPerMonth ! nat m)
      else None)"

definition clampDay :: "int \<Rightarrow> int \<Rightarrow> int \<Rightarrow> int option" where
  "clampDay y m d = map_option (\<lambda>n. min d n) (daysInMonth y m)"

section \<open>The platform's \<open>Date\<close>: ECMAScript day and time arithmetic\<close>

text \<open>
  \<open>Date.UTC\<close> and the \<open>getUTC...\<close> readers, after the ECMAScript definitions
  (\<open>DayFromYear\<close>, \<open>YearFromTime\<close>, \<open>MonthFromTime\<close>, \<open>DateFromTime\<close>, \<open>MakeDay\<close>,
  \<open>MakeTime\<close>, \<open>MakeFullYear\<close>), proleptic Gregorian, without the \<open>TimeClip\<close> range cut.
\<close>

definition DayFromYear :: "int \<Rightarrow> int" where
  "DayFromYear y =
     365 * (y - 1970) + (y - 1969) div 4 - (y - 1901) div 100 + (y - 1601) div 400"

definition YearFromDay :: "int \<Rightarrow> int" where
  "YearFromDay d =
     (let y = 1970 + (400 * d) div 146097 in
      if d < DayFromYear y then y - 1
      else if DayFromYear (y + 1) \<le> d then y + 1
      else y)"

definition leapDays :: "int \<Rightarrow> int" where
  "leapDays y = (if isLeapYear y then 1 else 0)"

definition monthStart :: "int \<Rightarrow> int \<Rightarrow> int" where
  "monthStart y m =
     (if m \<le> 0 then 0
      else if m = 1 then 31
      else [59, 90, 120, 151, 181, 212, 243, 273, 304, 334] ! nat (min m 11 - 2) + leapDays y)"

definition MonthFromDay :: "int \<Rightarrow> int \<Rightarrow> int" where
  "MonthFromDay y n =
     (if n < monthStart y 1 then 0
      else if n < monthStart y 2 then 1
      else if n < monthStart y 3 then 2
      else if n < monthStart y 4 then 3
      else if n < monthStart y 5 then 4
      else if n < monthStart y 6 then 5
      else if n < monthStart y 7 then 6
      else if n < monthStart y 8 then 7
      else if n < monthStart y 9 then 8
      else if n < monthStart y 10 then 9
      else if n < monthStart y 11 then 10
      else 11)"

definition Day :: "int \<Rightarrow> int" where
  "Day t = t div MS_PER_DAY"

definition utcFields :: "int \<Rightarrow> LocalDateTime" where
  "utcFields t =
     (let d = Day t;
          y = YearFromDay d;
          n = d - DayFromYear y;
          m = MonthFromDay y n
      in \<lparr> year = y, month = m, day = n - monthStart y m + 1,
           hour = (t div MS_PER_HOUR) mod 24,
           minute = (t div MS_PER_MINUTE) mod 60,
           second = (t div MS_PER_SECOND) mod 60 \<rparr>)"

definition getUTCDay :: "int \<Rightarrow> int" where
  "getUTCDay t = (Day t + 4) mod 7"

definition MakeDay :: "int \<Rightarrow> int \<Rightarrow> int \<Rightarrow> int" where
  "MakeDay y m dt =
     (let ym = y + m div 12; mn = m mod 12
      in DayFromYear ym + monthStart ym mn + dt - 1)"

definition MakeFullYear :: "int \<Rightarrow> int" where
  "MakeFullYear y = (if 0 \<le> y \<and> y \<le> 99 then 1900 + y else y)"

definition Date_UTC :: "int \<Rightarrow> int \<Rightarrow> int \<Rightarrow> int \<Rightarrow> int \<Rightarrow> int \<Rightarrow> int" where
  "Date_UTC y m d hh mi s =
     MakeDay (MakeFullYear y) m d * MS_PER_DAY
       + hh * MS_PER_HOUR + mi * MS_PER_MINUTE + s * MS_PER_SECOND"

section \<open>Offset resolution\<close>

text \<open>
  \<open>computeIntlOffsetSeconds\<close>: the zone's wall-clock fields for the instant are read as
  if they were UTC, and the distance to the instant is rounded to seconds
  (\<open>Math.round (x / 1000)\<close> is \<open>(x + 500) div 1000\<close>).
\<close>

definition computeIntlOffsetSeconds :: "host \<Rightarrow> string \<Rightarrow> int \<Rightarrow> int option" where
  "computeIntlOffsetSeconds h tzid t =
     (case intl_parts h tzid t of
        None \<Rightarrow> None
      | Some p \<Rightarrow>
          (let adjusted = Date_UTC (year p) (month p - 1) (day p) (hour p) (minute p) (second p)
           in Some ((adjusted - t + 500) div MS_PER_SECOND)))"

definition computeOffsetInfo :: "host \<Rightarrow> string \<Rightarrow> int \<Rightarrow> error + OffsetInfo" where
  "computeOffsetInfo h tzid t =
     (case ensureTimezone h tzid of
        Inl e \<Rightarrow> Inl e
      | Inr tzInfo \<Rightarrow>
          if dst tzInfo = sdt tzInfo
          then Inr \<lparr> offsetSeconds = sdt tzInfo, isDst = False \<rparr>
          else (case computeIntlOffsetSeconds h tzid t of
                  None \<Rightarrow> Inr \<lparr> offsetSeconds = sdt tzInfo, isDst = False \<rparr>
                | Some intlOffset \<Rightarrow>
                    if intlOffset \<noteq> sdt tzInfo \<and> intlOffset \<noteq> dst tzInfo
                    then Inr \<lparr> offsetSeconds = intlOffset, isDst = (intlOffset > sdt tzInfo) \<rparr>
                    else Inr \<lparr> offsetSeconds = intlOffset, isDst = (intlOffset = dst tzInfo) \<rparr>))"

section \<open>The \<open>DateTz\<close> class: state, construction, comparison\<close>

record DateTz =
  timestamp :: int
  timezone :: string
  offsetCache :: "(int \<times> OffsetInfo) option"

text \<open>
  An argument of type \<open>IDateTz\<close> is either a \<open>DateTz\<close> instance or a plain object with a
  \<open>timestamp\<close> and an optional \<open>timezone\<close>.
\<close>

datatype IDateTz = Instance DateTz | Plain int "string option"

definition idate_timestamp :: "IDateTz \<Rightarrow> int" where
  "idate_timestamp v = (case v of Instance d \<Rightarrow> timestamp d | Plain t _ \<Rightarrow> t)"

definition idate_timezone :: "IDateTz \<Rightarrow> string option" where
  "idate_timezone v = (case v of Instance d \<Rightarrow> Some (timezone d) | Plain _ z \<Rightarrow> z)"

text \<open>
  A member function that reads or writes \<open>this\<close> maps the object before the call to the outcome
  (a thrown error or the returned value) and the object after the call. An exception
  leaves the object as the statements before the \<open>throw\<close> made it.
\<close>

type_synonym 'a call = "DateTz \<Rightarrow> (error + 'a) \<times> DateTz"

definition returnM :: "'a \<Rightarrow> 'a call" where
  "returnM x = (\<lambda>this. (Inr x, this))"

definition throwM :: "error \<Rightarrow> 'a call" where
  "throwM e = (\<lambda>this. (Inl e, this))"

definition bindM :: "'a call \<Rightarrow> ('a \<Rightarrow> 'b call) \<Rightarrow> 'b call" where
  "bindM m f = (\<lambda>this. case m this of
                         (Inl e, this') \<Rightarrow> (Inl e, this')
                       | (Inr x, this') \<Rightarrow> f x this')"

definition thenM :: "unit call \<Rightarrow> 'b call \<Rightarrow> 'b call" where
  "thenM m k = bindM m (\<lambda>_. k)"

text \<open>The constructor, \<open>new DateTz (value, tz)\<close> on a number and \<open>new DateTz (value)\<close> on an object.\<close>

definition new_DateTz :: "host \<Rightarrow> int \<Rightarrow> string option \<Rightarrow> error + DateTz" where
  "new_DateTz h v tzarg =
     (let tzid = (case tzarg of None \<Rightarrow> ''UTC'' | Some z \<Rightarrow> z) in
      case ensureTimezone h tzid of
        Inl e \<Rightarrow> Inl e
      | Inr _ \<Rightarrow> Inr \<lparr> timestamp = floorToMinute v, timezone = tzid, offsetCache = None \<rparr>)"

definition new_DateTz_of :: "host \<Rightarrow> IDateTz \<Rightarrow> error + DateTz" where
  "new_DateTz_of h v =
     (let tzid = (case idate_timezone v of None \<Rightarrow> ''UTC'' | Some z \<Rightarrow> z) in
      case ensureTimezone h tzid of
        Inl e \<Rightarrow> Inl e
      | Inr _ \<Rightarrow> Inr \<lparr> timestamp = floorToMinute (idate_timestamp v), timezone = tzid,
                       offsetCache = None \<rparr>)"





definition isComparable :: "DateTz \<Rightarrow> IDateTz \<Rightarrow> bool" where
  "isComparable this other \<longleftrightarrow> Some (timezone this) = idate_timezone other"

definition toDateInstance :: "host \<Rightarrow> DateTz \<Rightarrow> IDateTz \<Rightarrow> error + DateTz" where
  "toDateInstance h this other =
     (case other of
        Instance d \<Rightarrow> Inr d
      | Plain t z \<Rightarrow> new_DateTz h t (Some (case z of None \<Rightarrow> timezone this | Some tzid \<Rightarrow> tzid)))"

definition ensureComparable :: "host \<Rightarrow> DateTz \<Rightarrow> IDateTz \<Rightarrow> error + DateTz" where
  "ensureComparable h this other =
     (case toDateInstance h this other of
        Inl e \<Rightarrow> Inl e
      | Inr inst \<Rightarrow>
          if \<not> isComparable this (Instance inst) then Inl IncomparableTimezones
          else Inr inst)"

definition compare :: "host \<Rightarrow> DateTz \<Rightarrow> IDateTz \<Rightarrow> error + int" where
  "compare h this other =
     (case ensureComparable h this other of
        Inl e \<Rightarrow> Inl e
      | Inr comparable \<Rightarrow> Inr (timestamp this - timestamp comparable))"

subsection \<open>The offset cache and the local calendar fields\<close>

definition invalidateOffsetCache :: "unit call" where
  "invalidateOffsetCache = (\<lambda>this. (Inr (), this\<lparr> offsetCache := None \<rparr>))"

definition cacheHit :: "DateTz \<Rightarrow> OffsetInfo option" where
  "cacheHit this =
     (case offsetCache this of
        None \<Rightarrow> None
      | Some (t, info) \<Rightarrow> if t = timestamp this then Some info else None)"

definition getOffsetInfo :: "host \<Rightarrow> OffsetInfo call" where
  "getOffsetInfo h = (\<lambda>this.
     case cacheHit this of
       Some info \<Rightarrow> (Inr info, this)
     | None \<Rightarrow>
         (case computeOffsetInfo h (timezone this) (timestamp this) of
            Inl e \<Rightarrow> (Inl e, this)
          | Inr info \<Rightarrow> (Inr info, this\<lparr> offsetCache := Some (timestamp this, info) \<rparr>)))"

definition resolveOffsetSeconds :: "host \<Rightarrow> bool \<Rightarrow> int call" where
  "resolveOffsetSeconds h considerDst =
     (if \<not> considerDst
      then (\<lambda>this. (case ensureTimezone h (timezone this) of
                       Inl e \<Rightarrow> Inl e
                     | Inr info \<Rightarrow> Inr (sdt info), this))
      else bindM (getOffsetInfo h) (\<lambda>info. returnM (offsetSeconds info)))"

definition getLocalParts :: "host \<Rightarrow> bool \<Rightarrow> LocalDateTime call" where
  "getLocalParts h considerDst =
     bindM (resolveOffsetSeconds h considerDst) (\<lambda>secs this.
       (Inr (utcFields (timestamp this + secs * MS_PER_SECOND)), this))"

definition get_isDst :: "host \<Rightarrow> bool call" where
  "get_isDst h = bindM (getOffsetInfo h) (\<lambda>info. returnM (isDst info))"

definition get_year :: "host \<Rightarrow> int call" where
  "get_year h = bindM (getLocalParts h True) (\<lambda>p. returnM (year p))"

definition get_month :: "host \<Rightarrow> int call" where
  "get_month h = bindM (getLocalParts h True) (\<lambda>p. returnM (month p))"

definition get_day :: "host \<Rightarrow> int call" where
  "get_day h = bindM (getLocalParts h True) (\<lambda>p. returnM (day p))"

definition get_hour :: "host \<Rightarrow> int call" where
  "get_hour h = bindM (getLocalParts h True) (\<lambda>p. returnM (hour p))"

definition get_minute :: "host \<Rightarrow> int call" where
  "get_minute h = bindM (getLocalParts h True) (\<lambda>p. returnM (minute p))"

definition get_dayOfWeek :: "host \<Rightarrow> int call" where
  "get_dayOfWeek h =
     bindM (resolveOffsetSeconds h True) (\<lambda>secs this.
       (Inr (getUTCDay (timestamp this + secs * MS_PER_SECOND)), this))"

section \<open>Text helpers\<close>

text \<open>
  Strings are lists of characters. \<open>String (n)\<close> of an integer is its decimal numeral with
  a leading minus sign for negatives; \<open>padStart\<close> fills from the left; \<open>slice (-2)\<close> keeps
  the last two characters. Case conversion and trimming are modelled on ASCII.
\<close>

definition digit_char :: "nat \<Rightarrow> char" where
  "digit_char n = char_of (48 + n)"

fun string_of_nat :: "nat \<Rightarrow> string" where
  "string_of_nat n =
     (if n < 10 then [digit_char n]
      else string_of_nat (n div 10) @ [digit_char (n mod 10)])"

definition String_of :: "int \<Rightarrow> string" where
  "String_of i = (if i < 0 then CHR ''-'' # string_of_nat (nat (- i)) else string_of_nat (nat i))"

definition padStart :: "nat \<Rightarrow> char \<Rightarrow> string \<Rightarrow> string" where
  "padStart n c s = replicate (n - length s) c @ s"

definition pad :: "int \<Rightarrow> nat \<Rightarrow> string" where
  "pad v n = padStart n CHR ''0'' (String_of v)"

definition slice_last :: "nat \<Rightarrow> string \<Rightarrow> string" where
  "slice_last n s = drop (length s - n) s"

definition is_digit :: "char \<Rightarrow> bool" where
  "is_digit c \<longleftrightarrow> 48 \<le> (of_char c :: nat) \<and> (of_char c :: nat) \<le> 57"

definition digit_value :: "char \<Rightarrow> nat" where
  "digit_value c = of_char c - 48"

definition decimal_value :: "string \<Rightarrow> nat" where
  "decimal_value s = foldl (\<lambda>acc c. 10 * acc + digit_value c) 0 s"

text \<open>
  \<open>Number (chunk)\<close>: a non-empty run of decimal digits is read in base ten; every
  other text is left to the host (\<open>None\<close> for a reading that is not finite).
\<close>

definition Number_of :: "host \<Rightarrow> string \<Rightarrow> int option" where
  "Number_of h chunk =
     (if chunk \<noteq> [] \<and> list_all is_digit chunk then Some (int (decimal_value chunk))
      else number_of_text h chunk)"

definition upper_char :: "char \<Rightarrow> char" where
  "upper_char c =
     (if 97 \<le> (of_char c :: nat) \<and> (of_char c :: nat) \<le> 122 then char_of ((of_char c :: nat) - 32)
      else c)"

definition lower_char :: "char \<Rightarrow> char" where
  "lower_char c =
     (if 65 \<le> (of_char c :: nat) \<and> (of_char c :: nat) \<le> 90 then char_of ((of_char c :: nat) + 32)
      else c)"

definition toUpperCase :: "string \<Rightarrow> string" where
  "toUpperCase s = map upper_char s"

definition toLowerCase :: "string \<Rightarrow> string" where
  "toLowerCase s = map lower_char s"

definition is_space :: "char \<Rightarrow> bool" where
  "is_space c \<longleftrightarrow> (of_char c :: nat) = 32 \<or> (9 \<le> (of_char c :: nat) \<and> (of_char c :: nat) \<le> 13)"

definition trim :: "string \<Rightarrow> string" where
  "trim s = rev (dropWhile is_space (rev (dropWhile is_space s)))"

definition capitalise :: "string \<Rightarrow> string" where
  "capitalise v = (case v of [] \<Rightarrow> [] | c # cs \<Rightarrow> upper_char c # cs)"

text \<open>\<open>s.slice (from, from + n)\<close> and \<open>s.indexOf (needle, from)\<close> for a non-empty needle.\<close>

definition slice :: "string \<Rightarrow> nat \<Rightarrow> nat \<Rightarrow> string" where
  "slice s from n = take n (drop from s)"

definition indexOf :: "string \<Rightarrow> string \<Rightarrow> nat \<Rightarrow> nat option" where
  "indexOf s needle from =
     List.find (\<lambda>i. slice s i (length needle) = needle) [from ..< Suc (length s)]"

section \<open>Pattern tokens\<close>

datatype TokenKey =
    T_YYYY | T_yyyy | T_YY | T_yy | T_MM | T_LM | T_DD | T_HH | T_hh | T_mm | T_ss
  | T_aa | T_AA | T_tz

datatype PatternSegment = Token TokenKey | Literal string

text \<open>
  \<open>TOKEN_REGEX\<close> is an alternation tried in order at each position: a bracketed run
  \<open>[...]\<close> without a closing bracket inside, then the token spellings with the four-letter
  years before the two-letter ones. \<open>match_at s\<close> is the match that starts at the head of
  \<open>s\<close>, with its length.
\<close>

definition token_spellings :: "(string \<times> TokenKey) list" where
  "token_spellings =
     [(''YYYY'', T_YYYY), (''yyyy'', T_yyyy), (''YY'', T_YY), (''yy'', T_yy),
      (''MM'', T_MM), (''LM'', T_LM), (''DD'', T_DD), (''HH'', T_HH), (''hh'', T_hh),
      (''mm'', T_mm), (''ss'', T_ss), (''aa'', T_aa), (''AA'', T_AA), (''tz'', T_tz)]"

definition token_at :: "string \<Rightarrow> (TokenKey \<times> nat) option" where
  "token_at s =
     map_option (\<lambda>(sp, k). (k, length sp))
       (List.find (\<lambda>(sp, k). take (length sp) s = sp) token_spellings)"

definition bracket_at :: "string \<Rightarrow> (string \<times> nat) option" where
  "bracket_at s =
     (case s of
        [] \<Rightarrow> None
      | c # rest \<Rightarrow>
          if c = CHR ''[''
          then (let body = takeWhile (\<lambda>x. x \<noteq> CHR '']'') rest in
                if length body < length rest then Some (body, length body + 2) else None)
          else None)"

definition match_at :: "string \<Rightarrow> (PatternSegment \<times> nat) option" where
  "match_at s =
     (case bracket_at s of
        Some (body, n) \<Rightarrow> Some (Literal body, n)
      | None \<Rightarrow> map_option (\<lambda>(k, n). (Token k, n)) (token_at s))"

fun containsFormattingToken :: "string \<Rightarrow> bool" where
  "containsFormattingToken [] = False"
| "containsFormattingToken (c # cs) =
     (token_at (c # cs) \<noteq> None \<or> containsFormattingToken cs)"

text \<open>
  \<open>tokenizePattern\<close>: the text between two matches becomes a literal segment, a bracketed
  match becomes a literal without its brackets, a token match becomes a token segment.
  \<open>pending\<close> is the text since the last match (\<open>pattern.slice (lastIndex, match.index)\<close>).
  A match is at least two characters long, so the scan resumes \<open>n - 1\<close> characters after
  the head's tail.
\<close>

definition flush :: "string \<Rightarrow> PatternSegment list" where
  "flush pending = (if pending = [] then [] else [Literal pending])"

fun tokenizeFrom :: "string \<Rightarrow> string \<Rightarrow> PatternSegment list" where
  "tokenizeFrom pending [] = flush pending"
| "tokenizeFrom pending (c # cs) =
     (case match_at (c # cs) of
        Some (seg, n) \<Rightarrow> flush pending @ seg # tokenizeFrom [] (drop (n - 1) cs)
      | None \<Rightarrow> tokenizeFrom (pending @ [c]) cs)"

definition tokenizePattern :: "string \<Rightarrow> PatternSegment list" where
  "tokenizePattern pattern = tokenizeFrom [] pattern"

text \<open>\<open>pattern.replace (TOKEN_REGEX, f)\<close>: matches are replaced, other text is copied.\<close>

fun replaceTokens :: "(PatternSegment \<Rightarrow> string) \<Rightarrow> string \<Rightarrow> string" where
  "replaceTokens f [] = []"
| "replaceTokens f (c # cs) =
     (case match_at (c # cs) of
        Some (seg, n) \<Rightarrow> f seg @ replaceTokens f (drop (n - 1) cs)
      | None \<Rightarrow> c # replaceTokens f cs)"

definition convertTwoDigitYear :: "int \<Rightarrow> int" where
  "convertTwoDigitYear v = v + (if v \<ge> 70 then 1900 else 2000)"

section \<open>Formatting: \<open>toString\<close>\<close>

definition defaultFormat :: string where
  "defaultFormat = ''YYYY-MM-DD HH:mm:ss''"

definition tokens_of :: "host \<Rightarrow> string \<Rightarrow> string \<Rightarrow> LocalDateTime \<Rightarrow> TokenKey \<Rightarrow> string" where
  "tokens_of h locale tzid parts k =
     (let hour12 = (if hour parts mod 12 = 0 then 12 else hour parts mod 12);
          ampm = (if hour parts \<ge> 12 then ''PM'' else ''AM'');
          full = String_of (year parts)
      in case k of
           T_YYYY \<Rightarrow> full
         | T_yyyy \<Rightarrow> full
         | T_YY \<Rightarrow> slice_last 2 full
         | T_yy \<Rightarrow> slice_last 2 full
         | T_MM \<Rightarrow> pad (month parts + 1) 2
         | T_LM \<Rightarrow> capitalise (month_long_name h locale (year parts) (month parts))
         | T_DD \<Rightarrow> pad (day parts) 2
         | T_HH \<Rightarrow> pad (hour parts) 2
         | T_hh \<Rightarrow> pad hour12 2
         | T_mm \<Rightarrow> pad (minute parts) 2
         | T_ss \<Rightarrow> pad (second parts) 2
         | T_aa \<Rightarrow> toLowerCase ampm
         | T_AA \<Rightarrow> ampm
         | T_tz \<Rightarrow> tzid)"

definition render :: "(TokenKey \<Rightarrow> string) \<Rightarrow> PatternSegment \<Rightarrow> string" where
  "render tokens seg = (case seg of Literal body \<Rightarrow> body | Token k \<Rightarrow> tokens k)"

text \<open>
  The two optional arguments select the pattern and the locale: a first argument is the
  pattern when a locale is given as well or when it holds a token, a locale when the
  platform accepts it as one, and a pattern otherwise.
\<close>

definition chosen_locale :: "host \<Rightarrow> string option \<Rightarrow> string option \<Rightarrow> string" where
  "chosen_locale h patternOrLocale maybeLocale =
     (let hasLocaleArgument = (case maybeLocale of Some l \<Rightarrow> l \<noteq> [] | None \<Rightarrow> False);
          locale0 = (if hasLocaleArgument then (case maybeLocale of Some l \<Rightarrow> l | None \<Rightarrow> ''en'') else ''en'')
      in case patternOrLocale of
           None \<Rightarrow> locale0
         | Some p \<Rightarrow>
             if p \<noteq> [] \<and> \<not> (hasLocaleArgument \<or> containsFormattingToken p) \<and> canonical_locale h p
             then p else locale0)"

definition chosen_pattern :: "host \<Rightarrow> string option \<Rightarrow> string option \<Rightarrow> string" where
  "chosen_pattern h patternOrLocale maybeLocale =
     (let hasLocaleArgument = (case maybeLocale of Some l \<Rightarrow> l \<noteq> [] | None \<Rightarrow> False)
      in case patternOrLocale of
           None \<Rightarrow> defaultFormat
         | Some p \<Rightarrow>
             if p = [] then defaultFormat
             else if hasLocaleArgument \<or> containsFormattingToken p then p
             else if canonical_locale h p then defaultFormat
             else p)"

definition toString :: "host \<Rightarrow> string option \<Rightarrow> string option \<Rightarrow> string call" where
  "toString h patternOrLocale maybeLocale =
     bindM (getLocalParts h True) (\<lambda>parts this.
       (Inr (replaceTokens
               (render (tokens_of h (chosen_locale h patternOrLocale maybeLocale)
                          (timezone this) parts))
               (chosen_pattern h patternOrLocale maybeLocale)),
        this))"

section \<open>Parsing: \<open>DateTz.parse\<close>\<close>

record ParseState =
  st_year :: "int option"
  st_yearTwoDigit :: "int option"
  st_month :: "int option"
  st_day :: "int option"
  st_hour24 :: "int option"
  st_hour12 :: "int option"
  st_minute :: "int option"
  st_second :: "int option"
  st_ampm :: "string option"
  st_timezone :: "string option"

definition emptyState :: ParseState where
  "emptyState =
     \<lparr> st_year = None, st_yearTwoDigit = None, st_month = None, st_day = None,
       st_hour24 = None, st_hour12 = None, st_minute = None, st_second = None,
       st_ampm = None, st_timezone = None \<rparr>"

text \<open>The two readers of the scan loop; each returns what it read and the new cursor.\<close>

definition readFixed :: "string \<Rightarrow> nat \<Rightarrow> nat \<Rightarrow> error + (string \<times> nat)" where
  "readFixed dateString cursor n =
     (let chunk = slice dateString cursor n in
      if length chunk \<noteq> n then Inl InvalidDateString else Inr (chunk, cursor + n))"

definition readNumber :: "host \<Rightarrow> string \<Rightarrow> nat \<Rightarrow> nat \<Rightarrow> error + (int \<times> nat)" where
  "readNumber h dateString cursor n =
     (case readFixed dateString cursor n of
        Inl e \<Rightarrow> Inl e
      | Inr (chunk, cursor') \<Rightarrow>
          (case Number_of h chunk of
             None \<Rightarrow> Inl InvalidNumericValue
           | Some v \<Rightarrow> Inr (v, cursor')))"

fun nextLiteral :: "PatternSegment list \<Rightarrow> string option" where
  "nextLiteral [] = None"
| "nextLiteral (Literal body # rest) = (if body \<noteq> [] then Some body else nextLiteral rest)"
| "nextLiteral (Token k # rest) = nextLiteral rest"

definition storeNumber ::
  "(int \<Rightarrow> ParseState) \<Rightarrow> error + (int \<times> nat) \<Rightarrow> error + (nat \<times> ParseState)" where
  "storeNumber put r = (case r of Inl e \<Rightarrow> Inl e | Inr (v, cursor') \<Rightarrow> Inr (cursor', put v))"

text \<open>One token of the \<open>switch\<close>; \<open>rest\<close> is the list of the segments after it.\<close>

definition readToken ::
  "host \<Rightarrow> string \<Rightarrow> PatternSegment list \<Rightarrow> nat \<Rightarrow> ParseState \<Rightarrow> TokenKey
     \<Rightarrow> error + (nat \<times> ParseState)" where
  "readToken h dateString rest cursor st k =
     (case k of
        T_YYYY \<Rightarrow> storeNumber (\<lambda>v. st\<lparr> st_year := Some v \<rparr>) (readNumber h dateString cursor 4)
      | T_yyyy \<Rightarrow> storeNumber (\<lambda>v. st\<lparr> st_year := Some v \<rparr>) (readNumber h dateString cursor 4)
      | T_YY \<Rightarrow> storeNumber (\<lambda>v. st\<lparr> st_yearTwoDigit := Some v \<rparr>) (readNumber h dateString cursor 2)
      | T_yy \<Rightarrow> storeNumber (\<lambda>v. st\<lparr> st_yearTwoDigit := Some v \<rparr>) (readNumber h dateString cursor 2)
      | T_MM \<Rightarrow> storeNumber (\<lambda>v. st\<lparr> st_month := Some v \<rparr>) (readNumber h dateString cursor 2)
      | T_DD \<Rightarrow> storeNumber (\<lambda>v. st\<lparr> st_day := Some v \<rparr>) (readNumber h dateString cursor 2)
      | T_HH \<Rightarrow> storeNumber (\<lambda>v. st\<lparr> st_hour24 := Some v \<rparr>) (readNumber h dateString cursor 2)
      | T_hh \<Rightarrow> storeNumber (\<lambda>v. st\<lparr> st_hour12 := Some v \<rparr>) (readNumber h dateString cursor 2)
      | T_mm \<Rightarrow> storeNumber (\<lambda>v. st\<lparr> st_minute := Some v \<rparr>) (readNumber h dateString cursor 2)
      | T_ss \<Rightarrow> storeNumber (\<lambda>v. st\<lparr> st_second := Some v \<rparr>) (readNumber h dateString cursor 2)
      | T_aa \<Rightarrow>
          (case readFixed dateString cursor 2 of
             Inl e \<Rightarrow> Inl e
           | Inr (chunk, cursor') \<Rightarrow> Inr (cursor', st\<lparr> st_ampm := Some chunk \<rparr>))
      | T_AA \<Rightarrow>
          (case readFixed dateString cursor 2 of
             Inl e \<Rightarrow> Inl e
           | Inr (chunk, cursor') \<Rightarrow> Inr (cursor', st\<lparr> st_ampm := Some chunk \<rparr>))
      | T_tz \<Rightarrow>
          (case nextLiteral rest of
             Some lit \<Rightarrow>
               (case indexOf dateString lit cursor of
                  None \<Rightarrow> Inl TimezoneIdNotFound
                | Some nextIndex \<Rightarrow>
                    Inr (nextIndex,
                         st\<lparr> st_timezone := Some (trim (slice dateString cursor (nextIndex - cursor))) \<rparr>))
           | None \<Rightarrow>
               Inr (length dateString,
                    st\<lparr> st_timezone := Some (trim (drop cursor dateString)) \<rparr>))
      | T_LM \<Rightarrow> Inl LocaleMonthUnsupported)"

fun scanSegments ::
  "host \<Rightarrow> string \<Rightarrow> PatternSegment list \<Rightarrow> nat \<Rightarrow> ParseState \<Rightarrow> error + (nat \<times> ParseState)" where
  "scanSegments h dateString [] cursor st = Inr (cursor, st)"
| "scanSegments h dateString (Literal body # rest) cursor st =
     (if slice dateString cursor (length body) \<noteq> body then Inl (PatternMismatch body cursor)
      else scanSegments h dateString rest (cursor + length body) st)"
| "scanSegments h dateString (Token k # rest) cursor st =
     (case readToken h dateString rest cursor st k of
        Inl e \<Rightarrow> Inl e
      | Inr (cursor', st') \<Rightarrow> scanSegments h dateString rest cursor' st')"

subsection \<open>From the scanned fields to one instant\<close>

record CandidateRecord =
  cand_date :: DateTz
  cand_delta :: int
  cand_isDst :: bool

record Candidates =
  exactMatches :: "CandidateRecord list"
  nextCandidate :: "CandidateRecord option"
  previousCandidate :: "CandidateRecord option"

definition noCandidates :: Candidates where
  "noCandidates = \<lparr> exactMatches = [], nextCandidate = None, previousCandidate = None \<rparr>"

text \<open>
  The body of the loop over the offsets up to the construction of \<open>record\<close>: the candidate
  object is built, its five calendar getters and \<open>isDst\<close> are read in the source's order
  (each read goes through the candidate's own offset cache), and the object as these
  reads left it is stored in the record.
\<close>

definition candidateFor :: "host \<Rightarrow> string \<Rightarrow> int \<Rightarrow> int \<Rightarrow> int \<Rightarrow> error + CandidateRecord" where
  "candidateFor h tzid baseUtc targetUtc offs =
     (case new_DateTz h (baseUtc - offs * MS_PER_SECOND) (Some tzid) of
        Inl e \<Rightarrow> Inl e
      | Inr candidate \<Rightarrow>
          (case bindM (get_year h) (\<lambda>y.
                bindM (get_month h) (\<lambda>m.
                bindM (get_day h) (\<lambda>d.
                bindM (get_hour h) (\<lambda>hh.
                bindM (get_minute h) (\<lambda>mi.
                bindM (get_isDst h) (\<lambda>flag.
                  returnM (Date_UTC y m d hh mi 0 - targetUtc, flag))))))) candidate of
             (Inl e, _) \<Rightarrow> Inl e
           | (Inr (delta, flag), candidate') \<Rightarrow>
               Inr \<lparr> cand_date = candidate', cand_delta = delta, cand_isDst = flag \<rparr>))"

definition classify :: "Candidates \<Rightarrow> CandidateRecord \<Rightarrow> Candidates" where
  "classify cs r =
     (if cand_delta r = 0 then cs\<lparr> exactMatches := exactMatches cs @ [r] \<rparr>
      else if cand_delta r > 0 then
        (case nextCandidate cs of
           None \<Rightarrow> cs\<lparr> nextCandidate := Some r \<rparr>
         | Some n \<Rightarrow>
             if cand_delta r < cand_delta n
                \<or> (cand_delta r = cand_delta n \<and> cand_isDst r \<and> \<not> cand_isDst n)
             then cs\<lparr> nextCandidate := Some r \<rparr> else cs)
      else
        (case previousCandidate cs of
           None \<Rightarrow> cs\<lparr> previousCandidate := Some r \<rparr>
         | Some p \<Rightarrow>
             if cand_delta r > cand_delta p
                \<or> (cand_delta r = cand_delta p \<and> cand_isDst r \<and> \<not> cand_isDst p)
             then cs\<lparr> previousCandidate := Some r \<rparr> else cs))"

fun candidateLoop ::
  "host \<Rightarrow> string \<Rightarrow> int \<Rightarrow> int \<Rightarrow> int list \<Rightarrow> Candidates \<Rightarrow> error + Candidates" where
  "candidateLoop h tzid baseUtc targetUtc [] cs = Inr cs"
| "candidateLoop h tzid baseUtc targetUtc (offs # others) cs =
     (case candidateFor h tzid baseUtc targetUtc offs of
        Inl e \<Rightarrow> Inl e
      | Inr r \<Rightarrow> candidateLoop h tzid baseUtc targetUtc others (classify cs r))"

text \<open>
  \<open>Array.from (new Set ([sdt, dst]))\<close> keeps the first of two equal offsets. The sort of
  the exact matches compares \<open>Number (b.isDst) - Number (a.isDst)\<close> and is stable, so the
  daylight-flagged records come first, each group in its order of arrival.
\<close>

definition distinctOffsets :: "TimezoneOffset \<Rightarrow> int list" where
  "distinctOffsets tzInfo = remdups_adj [sdt tzInfo, dst tzInfo]"

definition sortDstFirst :: "CandidateRecord list \<Rightarrow> CandidateRecord list" where
  "sortDstFirst rs = sort_key (\<lambda>r. if cand_isDst r then (0::nat) else 1) rs"

definition chooseResult :: "host \<Rightarrow> string \<Rightarrow> int \<Rightarrow> TimezoneOffset \<Rightarrow> Candidates \<Rightarrow> error + DateTz" where
  "chooseResult h tzid baseUtc tzInfo cs =
     (case sortDstFirst (exactMatches cs) of
        r # _ \<Rightarrow> Inr (cand_date r)
      | [] \<Rightarrow>
          (case nextCandidate cs of
             Some n \<Rightarrow> Inr (cand_date n)
           | None \<Rightarrow>
               (case previousCandidate cs of
                  Some p \<Rightarrow> Inr (cand_date p)
                | None \<Rightarrow> new_DateTz h (baseUtc - sdt tzInfo * MS_PER_SECOND) (Some tzid))))"

definition resolveInstant ::
  "host \<Rightarrow> string \<Rightarrow> int \<Rightarrow> int \<Rightarrow> int \<Rightarrow> int \<Rightarrow> int \<Rightarrow> int \<Rightarrow> error + DateTz" where
  "resolveInstant h tzid y m d hh mi s =
     (case ensureTimezone h tzid of
        Inl e \<Rightarrow> Inl e
      | Inr tzInfo \<Rightarrow>
          (let baseUtc = Date_UTC y m d hh mi s;
               targetUtc = Date_UTC y m d hh mi 0
           in case candidateLoop h tzid baseUtc targetUtc (distinctOffsets tzInfo) noCandidates of
                Inl e \<Rightarrow> Inl e
              | Inr cs \<Rightarrow>
                  (case chooseResult h tzid baseUtc tzInfo cs of
                     Inl e \<Rightarrow> Inl e
                   | Inr result \<Rightarrow> Inr (result\<lparr> offsetCache := None \<rparr>))))"

text \<open>
  JavaScript's \<open>%\<close> keeps the sign of the dividend; \<open>hour12 % 12\<close> is applied to whatever
  number the \<open>hh\<close> slot held.
\<close>

definition js_rem :: "int \<Rightarrow> int \<Rightarrow> int" where
  "js_rem a b = (if a < 0 then - ((- a) mod b) else a mod b)"

definition hourOf :: "ParseState \<Rightarrow> error + int" where
  "hourOf st =
     (case st_hour24 st of
        Some v \<Rightarrow> Inr v
      | None \<Rightarrow>
          (case st_hour12 st of
             Some v \<Rightarrow>
               (case st_ampm st of
                  None \<Rightarrow> Inl MissingAmPmMarker
                | Some marker \<Rightarrow>
                    if marker = [] then Inl MissingAmPmMarker
                    else Inr (js_rem v 12 + (if toUpperCase marker = ''PM'' then 12 else 0)))
           | None \<Rightarrow> Inr 0))"

definition zoneOf :: "ParseState \<Rightarrow> string option \<Rightarrow> string" where
  "zoneOf st tzarg =
     (case st_timezone st of
        Some z \<Rightarrow> if z \<noteq> [] then z else (case tzarg of Some t \<Rightarrow> t | None \<Rightarrow> ''UTC'')
      | None \<Rightarrow> (case tzarg of Some t \<Rightarrow> t | None \<Rightarrow> ''UTC''))"

definition yearOf :: "ParseState \<Rightarrow> int" where
  "yearOf st =
     (case st_year st of
        Some v \<Rightarrow> v
      | None \<Rightarrow> (case st_yearTwoDigit st of Some v \<Rightarrow> convertTwoDigitYear v | None \<Rightarrow> 1970))"

text \<open>The part of \<open>parse\<close> after the scan loop.\<close>

definition finishParse :: "host \<Rightarrow> ParseState \<Rightarrow> string option \<Rightarrow> error + DateTz" where
  "finishParse h st tzarg =
     (case hourOf st of
        Inl e \<Rightarrow> Inl e
      | Inr hh \<Rightarrow>
          resolveInstant h (zoneOf st tzarg)
            (yearOf st)
            ((case st_month st of Some v \<Rightarrow> v | None \<Rightarrow> 1) - 1)
            (case st_day st of Some v \<Rightarrow> v | None \<Rightarrow> 1)
            hh
            (case st_minute st of Some v \<Rightarrow> v | None \<Rightarrow> 0)
            (case st_second st of Some v \<Rightarrow> v | None \<Rightarrow> 0))"

definition needsMeridiem :: "PatternSegment list \<Rightarrow> bool" where
  "needsMeridiem segments \<longleftrightarrow>
     list_ex (\<lambda>seg. seg = Token T_hh) segments
     \<and> \<not> list_ex (\<lambda>seg. seg = Token T_aa \<or> seg = Token T_AA) segments"

definition formatOf :: "string option \<Rightarrow> string" where
  "formatOf pattern =
     (case pattern of
        Some p \<Rightarrow> if p \<noteq> [] then p else defaultFormat
      | None \<Rightarrow> defaultFormat)"

definition parse :: "host \<Rightarrow> string \<Rightarrow> string option \<Rightarrow> string option \<Rightarrow> error + DateTz" where
  "parse h dateString pattern tzarg =
     (let segments = tokenizePattern (formatOf pattern)
      in if needsMeridiem segments then Inl MissingMeridiem
         else (case scanSegments h dateString segments 0 emptyState of
                 Inl e \<Rightarrow> Inl e
               | Inr (cursor, st) \<Rightarrow>
                   if cursor \<noteq> length dateString then Inl UnconsumedInput
                   else finishParse h st tzarg))"

section \<open>Arithmetic on the instance\<close>

text \<open>
  \<open>setFromLocalParts\<close> formats the fields with the default pattern's layout and parses
  the text back in the object's zone. \<open>parts.day\<close> can be \<open>NaN\<close> when it reaches this
  function (\<open>clampDay\<close> of a month outside \<open>0..11\<close>), so the day travels as an option
  and \<open>NaN\<close> is printed as the text \<open>NaN\<close>, as \<open>String (NaN)\<close> does.
\<close>

definition pad_opt :: "int option \<Rightarrow> nat \<Rightarrow> string" where
  "pad_opt v n = (case v of None \<Rightarrow> padStart n CHR ''0'' ''NaN'' | Some i \<Rightarrow> pad i n)"

definition formatParts :: "LocalDateTime \<Rightarrow> int option \<Rightarrow> string" where
  "formatParts parts safeDay =
     pad (year parts) 4 @ ''-'' @ pad (month parts + 1) 2 @ ''-'' @ pad_opt safeDay 2 @ '' ''
       @ pad (hour parts) 2 @ '':'' @ pad (minute parts) 2 @ '':'' @ pad (second parts) 2"

definition setFromLocalPartsWith :: "host \<Rightarrow> LocalDateTime \<Rightarrow> int option \<Rightarrow> unit call" where
  "setFromLocalPartsWith h parts dayValue = (\<lambda>this.
     (let safeDay = (case dayValue of
                       None \<Rightarrow> None
                     | Some d \<Rightarrow> clampDay (year parts) (month parts) d);
          formatted = formatParts parts safeDay
      in case parse h formatted (Some ''YYYY-MM-DD HH:mm:ss'') (Some (timezone this)) of
           Inl e \<Rightarrow> (Inl e, this)
         | Inr parsed \<Rightarrow>
             (Inr (), this\<lparr> timestamp := timestamp parsed, timezone := timezone parsed,
                            offsetCache := None \<rparr>)))"

definition setFromLocalParts :: "host \<Rightarrow> LocalDateTime \<Rightarrow> unit call" where
  "setFromLocalParts h parts = setFromLocalPartsWith h parts (Some (day parts))"

definition shiftCalendar :: "host \<Rightarrow> string \<Rightarrow> int \<Rightarrow> unit call" where
  "shiftCalendar h unit v =
     (if v = 0 then returnM ()
      else bindM (getLocalParts h True) (\<lambda>parts.
        (let moved =
               (if unit = ''year'' then parts\<lparr> year := year parts + v \<rparr>
                else (let totalMonths = year parts * 12 + month parts + v;
                          y0 = totalMonths div 12;
                          m0 = js_rem totalMonths 12
                      in if m0 < 0 then parts\<lparr> year := y0 - 1, month := m0 + 12 \<rparr>
                         else parts\<lparr> year := y0, month := m0 \<rparr>))
         in setFromLocalPartsWith h moved (clampDay (year moved) (month moved) (day moved)))))"

definition shift :: "host \<Rightarrow> string \<Rightarrow> int \<Rightarrow> unit call" where
  "shift h unit v =
     (if v = 0 then returnM ()
      else if unit = ''month'' \<or> unit = ''year'' then shiftCalendar h unit v
      else (case (if unit = ''minute'' then Some MS_PER_MINUTE
                  else if unit = ''hour'' then Some MS_PER_HOUR
                  else if unit = ''day'' then Some MS_PER_DAY
                  else if unit = ''week'' then Some MS_PER_WEEK
                  else None) of
              None \<Rightarrow> throwM (UnsupportedUnit unit)
            | Some ms \<Rightarrow> (\<lambda>this.
                (Inr (), this\<lparr> timestamp := floorToMinute (timestamp this + v * ms),
                               offsetCache := None \<rparr>))))"

text \<open>\<open>add\<close> and \<open>subtract\<close> return \<open>this\<close>; the returned reference is the object after the call.\<close>

definition add :: "host \<Rightarrow> int \<Rightarrow> string \<Rightarrow> unit call" where
  "add h v unit = (if v = 0 then returnM () else shift h unit v)"

definition subtract :: "host \<Rightarrow> int \<Rightarrow> string \<Rightarrow> unit call" where
  "subtract h v unit = (if v = 0 then returnM () else shift h unit (- v))"

definition DURATION_ALIASES :: "(string \<times> string) list" where
  "DURATION_ALIASES =
     [(''minute'', ''minute''), (''minutes'', ''minute''), (''hour'', ''hour''), (''hours'', ''hour''),
      (''day'', ''day''), (''days'', ''day''), (''week'', ''week''), (''weeks'', ''week''),
      (''month'', ''month''), (''months'', ''month''), (''year'', ''year''), (''years'', ''year'')]"

text \<open>
  A duration object is the list of its entries, in the order \<open>Object.entries\<close> yields
  them; an entry's value may be \<open>undefined\<close>.
\<close>

fun plus :: "host \<Rightarrow> (string \<times> int option) list \<Rightarrow> unit call" where
  "plus h [] = returnM ()"
| "plus h ((key, rawValue) # entries) =
     (case map_of DURATION_ALIASES key of
        None \<Rightarrow> throwM (UnsupportedDurationUnit key)
      | Some unit \<Rightarrow>
          (let v = (case rawValue of None \<Rightarrow> 0 | Some x \<Rightarrow> x) in
           if v = 0 then plus h entries
           else if unit = ''millisecond'' \<or> unit = ''second'' then throwM (UnsupportedDurationUnit key)
           else thenM (shift h unit v) (plus h entries)))"

fun invertDuration :: "(string \<times> int option) list \<Rightarrow> error + (string \<times> int option) list" where
  "invertDuration [] = Inr []"
| "invertDuration ((key, rawValue) # entries) =
     (if map_of DURATION_ALIASES key = None then Inl (UnsupportedDurationUnit key)
      else (case invertDuration entries of
              Inl e \<Rightarrow> Inl e
            | Inr inverted \<Rightarrow>
                (case rawValue of
                   None \<Rightarrow> Inr inverted
                 | Some x \<Rightarrow> if x = 0 then Inr inverted else Inr ((key, Some (- x)) # inverted))))"

definition minus :: "host \<Rightarrow> (string \<times> int option) list \<Rightarrow> unit call" where
  "minus h duration =
     (case invertDuration duration of
        Inl e \<Rightarrow> throwM e
      | Inr inverted \<Rightarrow> plus h inverted)"

definition set_field :: "host \<Rightarrow> int \<Rightarrow> string \<Rightarrow> unit call" where
  "set_field h v unit =
     bindM (getLocalParts h True) (\<lambda>parts.
       (case (if unit = ''year'' then Some (parts\<lparr> year := v \<rparr>)
              else if unit = ''month'' then Some (parts\<lparr> month := v - 1 \<rparr>)
              else if unit = ''day'' then Some (parts\<lparr> day := v \<rparr>)
              else if unit = ''hour'' then Some (parts\<lparr> hour := v \<rparr>)
              else if unit = ''minute'' then Some (parts\<lparr> minute := v \<rparr>)
              else None) of
          None \<Rightarrow> throwM (UnsupportedUnit unit)
        | Some changed \<Rightarrow>
            setFromLocalPartsWith h
              (changed\<lparr> hour := max 0 (min 23 (hour changed)),
                        minute := max 0 (min 59 (minute changed)),
                        second := 0 \<rparr>)
              (clampDay (year changed) (month changed) (day changed))))"

subsection \<open>Units and boundaries\<close>

definition UNIT_ALIASES :: "(string \<times> string) list" where
  "UNIT_ALIASES =
     [(''ms'', ''millisecond''), (''millisecond'', ''millisecond''), (''milliseconds'', ''millisecond''),
      (''s'', ''second''), (''sec'', ''second''), (''second'', ''second''), (''seconds'', ''second''),
      (''m'', ''minute''), (''min'', ''minute''), (''minute'', ''minute''), (''minutes'', ''minute''),
      (''h'', ''hour''), (''hr'', ''hour''), (''hour'', ''hour''), (''hours'', ''hour''),
      (''d'', ''day''), (''day'', ''day''), (''days'', ''day''),
      (''w'', ''week''), (''wk'', ''week''), (''week'', ''week''), (''weeks'', ''week''),
      (''M'', ''month''), (''mon'', ''month''), (''month'', ''month''), (''months'', ''month''),
      (''y'', ''year''), (''yr'', ''year''), (''year'', ''year''), (''years'', ''year'')]"

text \<open>
  \<open>UNIT_ALIASES\<close> is an object literal, so \<open>UNIT_ALIASES[key]\<close> also finds the members
  that every object inherits. The key is lower-cased first, and the inherited members
  whose names are in lower case are \<open>constructor\<close> and \<open>__proto__\<close>; both are truthy, so
  \<open>normalizeDiffUnit\<close> returns them. The model returns the key in their place: like the
  inherited member it equals no unit name.
\<close>

definition inheritedKeys :: "string list" where
  "inheritedKeys = [''constructor'', ''__proto__'']"

definition normalizeDiffUnit :: "string \<Rightarrow> error + string" where
  "normalizeDiffUnit unit =
     (if unit = [] then Inr ''millisecond''
      else (case map_of UNIT_ALIASES (toLowerCase unit) of
              None \<Rightarrow>
                if toLowerCase unit \<in> set inheritedKeys then Inr (toLowerCase unit)
                else Inl (UnsupportedUnit unit)
            | Some normalized \<Rightarrow> Inr normalized))"

definition normalizeGranularity :: "string \<Rightarrow> error + string" where
  "normalizeGranularity unit =
     (case normalizeDiffUnit unit of
        Inl e \<Rightarrow> Inl e
      | Inr normalized \<Rightarrow>
          if normalized = ''millisecond'' \<or> normalized = ''second''
          then Inl (UnsupportedGranularity unit)
          else Inr normalized)"

definition startOfFields :: "string \<Rightarrow> LocalDateTime \<Rightarrow> LocalDateTime" where
  "startOfFields normalized parts =
     (if normalized = ''minute'' then parts\<lparr> second := 0 \<rparr>
      else if normalized = ''hour'' then parts\<lparr> minute := 0, second := 0 \<rparr>
      else if normalized = ''day'' then parts\<lparr> hour := 0, minute := 0, second := 0 \<rparr>
      else if normalized = ''month'' then parts\<lparr> day := 1, hour := 0, minute := 0, second := 0 \<rparr>
      else if normalized = ''year''
        then parts\<lparr> month := 0, day := 1, hour := 0, minute := 0, second := 0 \<rparr>
      else parts)"

text \<open>
  \<open>startOf\<close> on a unit other than the week: read the fields, reset the lower ones, write
  back. The week case calls \<open>this.startOf ('day')\<close>, which is this function at \<open>day\<close>.
\<close>

definition startOfUnit :: "host \<Rightarrow> string \<Rightarrow> unit call" where
  "startOfUnit h normalized =
     bindM (getLocalParts h True) (\<lambda>parts. setFromLocalParts h (startOfFields normalized parts))"

definition startOf :: "host \<Rightarrow> string \<Rightarrow> unit call" where
  "startOf h unit =
     (case normalizeGranularity unit of
        Inl e \<Rightarrow> throwM e
      | Inr normalized \<Rightarrow>
          if normalized = ''week''
          then bindM (getLocalParts h True) (\<lambda>parts.
                 thenM (startOfUnit h ''day'')
                   (bindM (get_dayOfWeek h) (\<lambda>dayOfWeek.
                      if dayOfWeek \<noteq> 0
                      then thenM (shift h ''day'' (- dayOfWeek)) (startOfUnit h ''day'')
                      else returnM ())))
          else startOfUnit h normalized)"

definition endOf :: "host \<Rightarrow> string \<Rightarrow> unit call" where
  "endOf h unit =
     (case normalizeGranularity unit of
        Inl e \<Rightarrow> throwM e
      | Inr normalized \<Rightarrow>
          if normalized = ''minute'' then returnM ()
          else if normalized = ''hour'' \<or> normalized = ''day'' \<or> normalized = ''week''
                  \<or> normalized = ''month'' \<or> normalized = ''year''
          then thenM (startOf h normalized)
                 (thenM (shift h normalized 1) (shift h ''minute'' (- 1)))
          else returnM ())"

subsection \<open>Copies, conversion, hydration\<close>

definition clone :: "host \<Rightarrow> DateTz call" where
  "clone h = (\<lambda>this. (new_DateTz_of h (Instance this), this))"

definition convertToTimezone :: "host \<Rightarrow> string \<Rightarrow> unit call" where
  "convertToTimezone h tzid = (\<lambda>this.
     case ensureTimezone h tzid of
       Inl e \<Rightarrow> (Inl e, this)
     | Inr _ \<Rightarrow> (Inr (), this\<lparr> timezone := tzid, offsetCache := None \<rparr>))"

text \<open>
  \<open>cloneToTimezone\<close> returns a new object; the second component of the result is \<open>this\<close>
  after the call.
\<close>

definition cloneToTimezone :: "host \<Rightarrow> string \<Rightarrow> DateTz call" where
  "cloneToTimezone h tzid = (\<lambda>this.
     case ensureTimezone h tzid of
       Inl e \<Rightarrow> (Inl e, this)
     | Inr _ \<Rightarrow>
         (case new_DateTz_of h (Instance this) of
            Inl e \<Rightarrow> (Inl e, this)
          | Inr fresh \<Rightarrow> (Inr (fresh\<lparr> timezone := tzid, offsetCache := None \<rparr>), this)))"



section \<open>The class invariant\<close>

text \<open>
  What the data model promises of every \<open>DateTz\<close> object: the timestamp is a whole number
  of minutes and the timezone id is a key of the catalogue.
\<close>

definition wellFormed :: "host \<Rightarrow> DateTz \<Rightarrow> bool" where
  "wellFormed h d \<longleftrightarrow> timestamp d mod 60000 = 0 \<and> timezones h (timezone d) \<noteq> None"

section \<open>Derived notions used in the statements\<close>

text \<open>
  \<open>localDelta t secs targetUtc\<close> is the \<open>delta\<close> of the candidate loop for a candidate at
  instant \<open>t\<close> whose resolved offset is \<open>secs\<close>: its own local fields, read as UTC with
  the seconds dropped, minus the target.
\<close>

definition localDelta :: "int \<Rightarrow> int \<Rightarrow> int \<Rightarrow> int" where
  "localDelta t secs targetUtc =
     (let p = utcFields (t + secs * MS_PER_SECOND)
      in Date_UTC (year p) (month p) (day p) (hour p) (minute p) 0 - targetUtc)"

definition withCache :: "DateTz \<Rightarrow> OffsetInfo \<Rightarrow> DateTz" where
  "withCache d info = d\<lparr> offsetCache := Some (timestamp d, info) \<rparr>"

definition preserves :: "host \<Rightarrow> 'a call \<Rightarrow> bool" where
  "preserves h m \<longleftrightarrow> (\<forall>d. wellFormed h d \<longrightarrow> wellFormed h (snd (m d)))"

definition allWellFormed :: "host \<Rightarrow> Candidates \<Rightarrow> bool" where
  "allWellFormed h cs \<longleftrightarrow>
     (\<forall>r \<in> set (exactMatches cs). wellFormed h (cand_date r))
     \<and> (\<forall>r. nextCandidate cs = Some r \<longrightarrow> wellFormed h (cand_date r))
     \<and> (\<forall>r. previousCandidate cs = Some r \<longrightarrow> wellFormed h (cand_date r))"

definition two_digits :: "nat \<Rightarrow> string" where
  "two_digits n = [digit_char (n div 10), digit_char (n mod 10)]"

definition four_digits :: "nat \<Rightarrow> string" where
  "four_digits n = [digit_char (n div 1000), digit_char (n div 100 mod 10),
                    digit_char (n div 10 mod 10), digit_char (n mod 10)]"

text \<open>
  \<open>infoAt\<close> and \<open>offsetAt\<close>: what \<open>computeOffsetInfo\<close> resolves for a zone of the
  catalogue at an instant. \<open>localFields\<close>: the fields \<open>getLocalParts (true)\<close> yields for an
  object whose cache is empty or up to date. \<open>candidateAt\<close>: the record the candidate loop
  builds for a candidate at instant \<open>t\<close>.
\<close>

definition infoAt :: "host \<Rightarrow> string \<Rightarrow> int \<Rightarrow> OffsetInfo" where
  "infoAt h tzid t =
     (case computeOffsetInfo h tzid t of
        Inr info \<Rightarrow> info
      | Inl _ \<Rightarrow> \<lparr> offsetSeconds = 0, isDst = False \<rparr>)"

definition offsetAt :: "host \<Rightarrow> string \<Rightarrow> int \<Rightarrow> int" where
  "offsetAt h tzid t = offsetSeconds (infoAt h tzid t)"

definition localFields :: "host \<Rightarrow> DateTz \<Rightarrow> LocalDateTime" where
  "localFields h d =
     utcFields (timestamp d + offsetAt h (timezone d) (timestamp d) * MS_PER_SECOND)"

definition candidateAt :: "host \<Rightarrow> string \<Rightarrow> int \<Rightarrow> int \<Rightarrow> CandidateRecord" where
  "candidateAt h tzid t targetUtc =
     \<lparr> cand_date = \<lparr> timestamp = t, timezone = tzid, offsetCache = Some (t, infoAt h tzid t) \<rparr>,
       cand_delta = localDelta t (offsetAt h tzid t) targetUtc,
       cand_isDst = isDst (infoAt h tzid t) \<rparr>"

text \<open>
  The candidate that the parser builds at offset \<open>offs\<close> for the wall-clock time
  \<open>targetUtc\<close> shows that wall-clock time and is daylight-flagged.
\<close>

definition exactDaylight :: "host \<Rightarrow> string \<Rightarrow> int \<Rightarrow> int \<Rightarrow> bool" where
  "exactDaylight h tzid targetUtc offs \<longleftrightarrow>
     (let c = candidateAt h tzid (targetUtc - offs * MS_PER_SECOND) targetUtc
      in cand_delta c = 0 \<and> cand_isDst c)"

section \<open>The resolution priority in the specification's words\<close>

text \<open>
  Among the exact matches the daylight-flagged candidate; else, among the candidates that
  land after the target, the one with the smallest delta, a tie going to the
  daylight-flagged one; else, among those that land before the target, the one with the
  delta closest to zero; else the fallback. \<open>preferDaylight\<close> takes the first flagged
  record of a list and the first record when none is flagged.
\<close>

definition preferDaylight :: "CandidateRecord list \<Rightarrow> CandidateRecord option" where
  "preferDaylight rs =
     (case filter cand_isDst rs of
        r # _ \<Rightarrow> Some r
      | [] \<Rightarrow> (case rs of r # _ \<Rightarrow> Some r | [] \<Rightarrow> None))"

definition nearest :: "CandidateRecord list \<Rightarrow> CandidateRecord option" where
  "nearest rs =
     preferDaylight (filter (\<lambda>r. list_all (\<lambda>r'. \<bar>cand_delta r\<bar> \<le> \<bar>cand_delta r'\<bar>) rs) rs)"

definition spec_priority :: "CandidateRecord list \<Rightarrow> DateTz \<Rightarrow> DateTz" where
  "spec_priority cands fallback =
     (case preferDaylight (filter (\<lambda>r. cand_delta r = 0) cands) of
        Some r \<Rightarrow> cand_date r
      | None \<Rightarrow>
          (case nearest (filter (\<lambda>r. cand_delta r > 0) cands) of
             Some r \<Rightarrow> cand_date r
           | None \<Rightarrow>
               (case nearest (filter (\<lambda>r. cand_delta r < 0) cands) of
                  Some r \<Rightarrow> cand_date r
                | None \<Rightarrow> fallback)))"

section \<open>The text that each segment reads\<close>

text \<open>
  \<open>tokenWidth\<close>: the width of the text that a token other than \<open>tz\<close> and \<open>LM\<close> reads.
  \<open>scanChunks\<close> follows the scan loop of \<open>parse\<close> and records, for every segment of the
  pattern, the text of the input that the segment consumed (\<open>None\<close> when the loop throws).
  Two inputs differ only in their seconds digits when these texts are the same for every
  segment but the \<open>ss\<close> slots. \<open>scannedSecond\<close> is the seconds field that the scan loop
  leaves for an input.
\<close>

definition tokenWidth :: "TokenKey \<Rightarrow> nat" where
  "tokenWidth k = (if k = T_YYYY \<or> k = T_yyyy then 4 else 2)"

fun scanChunks ::
  "host \<Rightarrow> string \<Rightarrow> PatternSegment list \<Rightarrow> nat \<Rightarrow> ParseState
     \<Rightarrow> (PatternSegment \<times> string) list option" where
  "scanChunks h dateString [] cursor st = Some []"
| "scanChunks h dateString (Literal body # rest) cursor st =
     (if slice dateString cursor (length body) \<noteq> body then None
      else map_option (\<lambda>chunks. (Literal body, body) # chunks)
             (scanChunks h dateString rest (cursor + length body) st))"
| "scanChunks h dateString (Token k # rest) cursor st =
     (case readToken h dateString rest cursor st k of
        Inl e \<Rightarrow> None
      | Inr (cursor', st') \<Rightarrow>
          map_option (\<lambda>chunks. (Token k, slice dateString cursor (cursor' - cursor)) # chunks)
            (scanChunks h dateString rest cursor' st'))"

definition hideSeconds :: "PatternSegment \<times> string \<Rightarrow> PatternSegment \<times> string" where
  "hideSeconds c = (if fst c = Token T_ss then (fst c, []) else c)"

definition differOnlyInSeconds :: "host \<Rightarrow> string option \<Rightarrow> string \<Rightarrow> string \<Rightarrow> bool" where
  "differOnlyInSeconds h pattern s1 s2 \<longleftrightarrow>
     (case (scanChunks h s1 (tokenizePattern (formatOf pattern)) 0 emptyState,
            scanChunks h s2 (tokenizePattern (formatOf pattern)) 0 emptyState) of
        (Some chunks1, Some chunks2) \<Rightarrow> map hideSeconds chunks1 = map hideSeconds chunks2
      | _ \<Rightarrow> False)"

definition scannedSecond :: "host \<Rightarrow> string option \<Rightarrow> string \<Rightarrow> int option" where
  "scannedSecond h pattern dateString =
     (case scanSegments h dateString (tokenizePattern (formatOf pattern)) 0 emptyState of
        Inl _ \<Rightarrow> None
      | Inr (_, st) \<Rightarrow> st_second st)"

definition secondsInRange :: "int option \<Rightarrow> bool" where
  "secondsInRange v = (case v of None \<Rightarrow> True | Some s \<Rightarrow> 0 \<le> s \<and> s < 60)"

section \<open>Reading back a rendered text\<close>

text \<open>
  \<open>storeChunk\<close>: the state after the token \<open>k\<close> has read the text \<open>chunk\<close> (the state is
  left as it is when the read fails). \<open>storeRendered\<close>: the same for a segment whose token
  is rendered by \<open>tokens\<close>; a literal stores nothing.
\<close>

definition storeChunk :: "host \<Rightarrow> TokenKey \<Rightarrow> string \<Rightarrow> ParseState \<Rightarrow> ParseState" where
  "storeChunk h k chunk st =
     (case readToken h chunk [] 0 st k of Inr (_, st') \<Rightarrow> st' | Inl _ \<Rightarrow> st)"

definition storeRendered ::
  "host \<Rightarrow> (TokenKey \<Rightarrow> string) \<Rightarrow> PatternSegment \<Rightarrow> ParseState \<Rightarrow> ParseState" where
  "storeRendered h tokens seg st =
     (case seg of Literal _ \<Rightarrow> st | Token k \<Rightarrow> storeChunk h k (tokens k) st)"

text \<open>
  \<open>tzPlaced tzid segments\<close>: every \<open>tz\<close> token of the pattern is the last segment, or
  stands before a non-empty literal whose first occurrence in the zone id followed by
  that literal is the one after the zone id. Then the \<open>tz\<close> slot of the parser, which
  reads up to the next occurrence of the next literal, reads the zone id and no more.
\<close>

fun tzPlaced :: "string \<Rightarrow> PatternSegment list \<Rightarrow> bool" where
  "tzPlaced tzid [] = True"
| "tzPlaced tzid (Token k # rest) =
     ((k = T_tz \<longrightarrow>
         (case rest of
            [] \<Rightarrow> True
          | Literal lit # _ \<Rightarrow> lit \<noteq> [] \<and> indexOf (tzid @ lit) lit 0 = Some (length tzid)
          | Token _ # _ \<Rightarrow> False))
      \<and> tzPlaced tzid rest)"
| "tzPlaced tzid (Literal body # rest) = tzPlaced tzid rest"

section \<open>A sample host for concrete runs\<close>

text \<open>
  Three catalogue entries with the offsets the test-suite expects, and a calendar service
  that knows the 2021 daylight-saving periods of \<open>Europe/Rome\<close> and \<open>America/New_York\<close>.
  The fields are as \<open>formatToParts\<close> prints them, so the month is one-based.
\<close>

definition sample_timezones :: "string \<Rightarrow> TimezoneOffset option" where
  "sample_timezones ident =
     (if ident = ''UTC'' then Some \<lparr> sdt = 0, dst = 0 \<rparr>
      else if ident = ''Europe/Rome'' then Some \<lparr> sdt = 3600, dst = 7200 \<rparr>
      else if ident = ''America/New_York'' then Some \<lparr> sdt = - 18000, dst = - 14400 \<rparr>
      else None)"

definition printed_fields :: "int \<Rightarrow> LocalDateTime" where
  "printed_fields t = (let p = utcFields t in p\<lparr> month := month p + 1 \<rparr>)"

definition sample_intl_parts :: "string \<Rightarrow> int \<Rightarrow> LocalDateTime option" where
  "sample_intl_parts ident t =
     (if ident = ''Europe/Rome'' then
        Some (printed_fields
          (t + (if 1616893200000 \<le> t \<and> t < 1635642000000 then 7200000 else 3600000)))
      else if ident = ''America/New_York'' then
        Some (printed_fields
          (t + (if 1615705200000 \<le> t \<and> t < 1636264800000 then - 14400000 else - 18000000)))
      else None)"

definition sample_host :: host where
  "sample_host =
     \<lparr> timezones = sample_timezones,
       intl_parts = sample_intl_parts,
       month_long_name = (\<lambda>locale y m. ''month''),
       canonical_locale = (\<lambda>candidate. False),
       number_of_text = (\<lambda>chunk. None) \<rparr>"

section \<open>Verified properties\<close>

subsection \<open>Offset resolution\<close>

text \<open>
  Claim C4. For a timezone id of the catalogue and any instant, \<open>computeOffsetInfo\<close>
  returns the standard offset with \<open>isDst = false\<close> when the two catalogue offsets are
  equal, whatever the host's calendar service is (the result is stated for every host, so
  the service is not consulted); it returns the same when the service yields no offset;
  when the computed offset is neither catalogue offset, \<open>isDst\<close> holds exactly when the
  computed offset is greater than the standard offset; otherwise \<open>isDst\<close> holds exactly
  when the computed offset is the daylight offset.
\<close>

theorem computeOffsetInfo_resolution:
  assumes "timezones h tzid = Some z"
  shows "(dst z = sdt z \<longrightarrow>
            computeOffsetInfo h tzid t = Inr \<lparr> offsetSeconds = sdt z, isDst = False \<rparr>)
       \<and> (computeIntlOffsetSeconds h tzid t = None \<longrightarrow>
            computeOffsetInfo h tzid t = Inr \<lparr> offsetSeconds = sdt z, isDst = False \<rparr>)
       \<and> (\<forall>c. dst z \<noteq> sdt z \<and> computeIntlOffsetSeconds h tzid t = Some c \<longrightarrow>
            computeOffsetInfo h tzid t =
              Inr \<lparr> offsetSeconds = c,
                    isDst = (if c \<noteq> sdt z \<and> c \<noteq> dst z then c > sdt z else c = dst z) \<rparr>)"
  using assms by (simp add: computeOffsetInfo_def ensureTimezone_def)

theorem computeOffsetInfo_resolution_witness:
  "timezones sample_host ''UTC'' = Some \<lparr> sdt = 0, dst = 0 \<rparr>
   \<and> computeOffsetInfo sample_host ''UTC'' 1609459200000
       = Inr \<lparr> offsetSeconds = 0, isDst = False \<rparr>
   \<and> timezones sample_host ''Europe/Rome'' = Some \<lparr> sdt = 3600, dst = 7200 \<rparr>
   \<and> computeIntlOffsetSeconds sample_host ''Europe/Rome'' 1625140800000 = Some 7200
   \<and> computeOffsetInfo sample_host ''Europe/Rome'' 1625140800000
       = Inr \<lparr> offsetSeconds = 7200, isDst = True \<rparr>"
proof -
  have utc: "timezones sample_host ''UTC'' = Some \<lparr> sdt = 0, dst = 0 \<rparr>"
    by (simp add: sample_host_def sample_timezones_def)
  have rome: "timezones sample_host ''Europe/Rome'' = Some \<lparr> sdt = 3600, dst = 7200 \<rparr>"
    by (simp add: sample_host_def sample_timezones_def)
  have intl: "computeIntlOffsetSeconds sample_host ''Europe/Rome'' 1625140800000 = Some 7200"
    by code_simp
  from computeOffsetInfo_resolution [OF utc, of 1609459200000]
       computeOffsetInfo_resolution [OF rome, of 1625140800000] utc rome intl
  show ?thesis by simp
qed

subsection \<open>Comparison\<close>

text \<open>
  Claim C6. For \<open>DateTz\<close> values \<open>a\<close> and \<open>b\<close>, \<open>a.compare (b)\<close> throws the
  incomparable-timezones error whenever the two timezone ids differ, whatever the
  timestamps are, and returns \<open>a.timestamp - b.timestamp\<close> when the ids are equal.
\<close>

theorem compare_same_timezone_only:
  "compare h a (Instance b) =
     (if timezone a = timezone b then Inr (timestamp a - timestamp b)
      else Inl IncomparableTimezones)"
  by (simp add: compare_def ensureComparable_def toDateInstance_def isComparable_def
        idate_timezone_def)

theorem compare_same_timezone_only_witness:
  "compare sample_host
       \<lparr> timestamp = 1609459200000, timezone = ''UTC'', offsetCache = None \<rparr>
       (Instance \<lparr> timestamp = 1609459200000, timezone = ''Europe/Rome'', offsetCache = None \<rparr>)
     = Inl IncomparableTimezones
   \<and> compare sample_host
       \<lparr> timestamp = 1609459500000, timezone = ''UTC'', offsetCache = None \<rparr>
       (Instance \<lparr> timestamp = 1609459200000, timezone = ''UTC'', offsetCache = None \<rparr>)
     = Inr 300000"
  by (simp add: compare_same_timezone_only)

subsection \<open>Basic facts about the constants and the constructor\<close>

lemma MS_PER_MINUTE_eq: "MS_PER_MINUTE = 60000"
  by (simp add: MS_PER_MINUTE_def MS_PER_SECOND_def)

lemma floorToMinute_aligned: "floorToMinute t mod 60000 = 0"
  by (simp add: floorToMinute_def MS_PER_MINUTE_eq)

lemma floorToMinute_id: "t mod 60000 = 0 \<Longrightarrow> floorToMinute t = t"
  by (auto simp: floorToMinute_def MS_PER_MINUTE_eq)

lemma new_DateTz_Inr:
  "new_DateTz h v tzarg = Inr d \<Longrightarrow>
     timestamp d = floorToMinute v \<and> offsetCache d = None
     \<and> timezone d = (case tzarg of None \<Rightarrow> ''UTC'' | Some z \<Rightarrow> z)
     \<and> timezones h (timezone d) \<noteq> None"
  by (auto simp: new_DateTz_def ensureTimezone_def Let_def split: option.splits)

lemma new_DateTz_wellFormed: "new_DateTz h v tzarg = Inr d \<Longrightarrow> wellFormed h d"
  by (auto simp: wellFormed_def floorToMinute_aligned dest!: new_DateTz_Inr)



subsection \<open>Zero-valued shifts\<close>

text \<open>
  Claim C8. For every \<open>DateTz\<close> value \<open>d\<close> and every unit \<open>u\<close>, \<open>add (0, u)\<close> and
  \<open>subtract (0, u)\<close> return \<open>d\<close> itself with its timestamp, timezone and offset cache as
  they were: the call succeeds and the object after the call is the object before it.
  The equation holds for every host, so neither the calendar service nor the parser
  (the local-field reconstruction) takes part.
\<close>

theorem add_subtract_zero_noop:
  "add h 0 u d = (Inr (), d) \<and> subtract h 0 u d = (Inr (), d)"
  by (simp add: add_def subtract_def returnM_def)

theorem add_subtract_zero_noop_witness:
  "add sample_host 0 ''month''
       \<lparr> timestamp = 1609459200000, timezone = ''Europe/Rome'',
         offsetCache = Some (1609459200000, \<lparr> offsetSeconds = 3600, isDst = False \<rparr>) \<rparr>
     = (Inr (), \<lparr> timestamp = 1609459200000, timezone = ''Europe/Rome'',
         offsetCache = Some (1609459200000, \<lparr> offsetSeconds = 3600, isDst = False \<rparr>) \<rparr>)
   \<and> subtract sample_host 0 ''month''
       \<lparr> timestamp = 1609459200000, timezone = ''Europe/Rome'',
         offsetCache = Some (1609459200000, \<lparr> offsetSeconds = 3600, isDst = False \<rparr>) \<rparr>
     = (Inr (), \<lparr> timestamp = 1609459200000, timezone = ''Europe/Rome'',
         offsetCache = Some (1609459200000, \<lparr> offsetSeconds = 3600, isDst = False \<rparr>) \<rparr>)"
  by (rule add_subtract_zero_noop)

subsection \<open>Cloning into another zone\<close>

text \<open>
  Claim C10. For every \<open>DateTz\<close> value \<open>d\<close> (an object that satisfies the class invariant)
  and every timezone id \<open>tz\<close> of the catalogue, \<open>d.cloneToTimezone (tz)\<close> returns a new
  object with \<open>d\<close>'s timestamp, the timezone \<open>tz\<close> and an empty offset cache of its own,
  whatever \<open>d\<close>'s cache holds; \<open>d\<close> itself, its cache included, is after the call what it
  was before.
\<close>

theorem cloneToTimezone_fresh_copy:
  assumes "wellFormed h d" and "timezones h tzid \<noteq> None"
  shows "cloneToTimezone h tzid d =
           (Inr \<lparr> timestamp = timestamp d, timezone = tzid, offsetCache = None \<rparr>, d)"
  using assms
  by (auto simp: cloneToTimezone_def new_DateTz_of_def ensureTimezone_def wellFormed_def
        idate_timezone_def idate_timestamp_def floorToMinute_id Let_def split: option.splits)

theorem cloneToTimezone_fresh_copy_witness:
  "wellFormed sample_host
     \<lparr> timestamp = 1609459200000, timezone = ''UTC'',
       offsetCache = Some (1609459200000, \<lparr> offsetSeconds = 0, isDst = False \<rparr>) \<rparr>
   \<and> timezones sample_host ''Europe/Rome'' \<noteq> None
   \<and> cloneToTimezone sample_host ''Europe/Rome''
       \<lparr> timestamp = 1609459200000, timezone = ''UTC'',
         offsetCache = Some (1609459200000, \<lparr> offsetSeconds = 0, isDst = False \<rparr>) \<rparr>
     = (Inr \<lparr> timestamp = 1609459200000, timezone = ''Europe/Rome'', offsetCache = None \<rparr>,
        \<lparr> timestamp = 1609459200000, timezone = ''UTC'',
          offsetCache = Some (1609459200000, \<lparr> offsetSeconds = 0, isDst = False \<rparr>) \<rparr>)"
proof -
  let ?d = "\<lparr> timestamp = 1609459200000, timezone = ''UTC'',
              offsetCache = Some (1609459200000, \<lparr> offsetSeconds = 0, isDst = False \<rparr>) \<rparr>"
  have wf: "wellFormed sample_host ?d"
    by (simp add: wellFormed_def sample_host_def sample_timezones_def)
  have tz: "timezones sample_host ''Europe/Rome'' \<noteq> None"
    by (simp add: sample_host_def sample_timezones_def)
  from cloneToTimezone_fresh_copy [OF wf tz] wf tz show ?thesis by simp
qed

subsection \<open>Reading the offset and the local fields\<close>

lemma computeOffsetInfo_total:
  "timezones h tzid = Some z \<Longrightarrow> \<exists>info. computeOffsetInfo h tzid t = Inr info"
  by (simp add: computeOffsetInfo_def ensureTimezone_def split: option.splits)

lemma computeOffsetInfo_error:
  "computeOffsetInfo h tzid t = Inl e \<Longrightarrow> e = InvalidTimezone tzid"
  by (auto simp: computeOffsetInfo_def ensureTimezone_def split: option.splits if_splits)

lemma cacheHit_withCache [simp]: "cacheHit (withCache d info) = Some info"
  by (simp add: cacheHit_def withCache_def)

lemma withCache_fields [simp]:
  "timestamp (withCache d info) = timestamp d"
  "timezone (withCache d info) = timezone d"
  "offsetCache (withCache d info) = Some (timestamp d, info)"
  by (simp_all add: withCache_def)

lemma withCache_idem [simp]: "withCache (withCache d info) info = withCache d info"
  by (simp add: withCache_def)

lemma getOffsetInfo_eq:
  assumes "computeOffsetInfo h (timezone d) (timestamp d) = Inr info"
    and "cacheHit d = None \<or> cacheHit d = Some info"
  shows "getOffsetInfo h d = (Inr info, withCache d info)"
  using assms
  by (auto simp: getOffsetInfo_def withCache_def cacheHit_def split: option.splits if_splits)

lemma getLocalParts_eq:
  assumes "computeOffsetInfo h (timezone d) (timestamp d) = Inr info"
    and "cacheHit d = None \<or> cacheHit d = Some info"
  shows "getLocalParts h True d =
           (Inr (utcFields (timestamp d + offsetSeconds info * MS_PER_SECOND)), withCache d info)"
  using getOffsetInfo_eq [OF assms]
  by (simp add: getLocalParts_def resolveOffsetSeconds_def bindM_def returnM_def)

lemma candidateFor_eq:
  assumes "timezones h tzid = Some z"
    and "computeOffsetInfo h tzid (floorToMinute (baseUtc - offs * MS_PER_SECOND)) = Inr info"
  shows "candidateFor h tzid baseUtc targetUtc offs =
           Inr \<lparr> cand_date = \<lparr> timestamp = floorToMinute (baseUtc - offs * MS_PER_SECOND),
                               timezone = tzid,
                               offsetCache = Some (floorToMinute (baseUtc - offs * MS_PER_SECOND), info) \<rparr>,
                 cand_delta = localDelta (floorToMinute (baseUtc - offs * MS_PER_SECOND))
                                (offsetSeconds info) targetUtc,
                 cand_isDst = isDst info \<rparr>"
proof -
  let ?t = "floorToMinute (baseUtc - offs * MS_PER_SECOND)"
  let ?c = "\<lparr> timestamp = ?t, timezone = tzid, offsetCache = None \<rparr>"
  let ?c1 = "\<lparr> timestamp = ?t, timezone = tzid, offsetCache = Some (?t, info) \<rparr>"
  let ?p = "utcFields (?t + offsetSeconds info * MS_PER_SECOND)"
  have new: "new_DateTz h (baseUtc - offs * MS_PER_SECOND) (Some tzid) = Inr ?c"
    using assms(1) by (simp add: new_DateTz_def ensureTimezone_def)
  have first: "getLocalParts h True ?c = (Inr ?p, ?c1)"
    using getLocalParts_eq [of h ?c info] assms(2) by (simp add: cacheHit_def withCache_def)
  have later: "getLocalParts h True ?c1 = (Inr ?p, ?c1)"
    using getLocalParts_eq [of h ?c1 info] assms(2) by (simp add: cacheHit_def withCache_def)
  have flag: "getOffsetInfo h ?c1 = (Inr info, ?c1)"
    using getOffsetInfo_eq [of h ?c1 info] assms(2) by (simp add: cacheHit_def withCache_def)
  show ?thesis
    unfolding candidateFor_def new
    by (simp add: get_year_def get_month_def get_day_def get_hour_def get_minute_def
          get_isDst_def bindM_def returnM_def first later flag localDelta_def Let_def)
qed

subsection \<open>The meridiem check of the parser\<close>

lemma readToken_not_meridiem:
  "readToken h s rest cursor st k \<noteq> Inl MissingMeridiem"
  by (cases k)
     (auto simp: readToken_def storeNumber_def readNumber_def readFixed_def Let_def
           split: sum.splits option.splits prod.splits if_splits)

lemma scanSegments_not_meridiem:
  "scanSegments h s segs cursor st \<noteq> Inl MissingMeridiem"
proof (induction segs arbitrary: cursor st)
  case Nil
  then show ?case by simp
next
  case (Cons seg segs)
  show ?case
  proof (cases seg)
    case (Token k)
    then show ?thesis
      using Cons.IH readToken_not_meridiem [of h s segs cursor st k]
      by (auto split: sum.splits)
  next
    case (Literal body)
    then show ?thesis using Cons.IH by auto
  qed
qed

lemma candidateLoop_total:
  assumes "timezones h tzid = Some z"
  shows "\<exists>cs'. candidateLoop h tzid baseUtc targetUtc offsets cs = Inr cs'"
proof (induction offsets arbitrary: cs)
  case Nil
  then show ?case by simp
next
  case (Cons offs offsets)
  obtain info where
    "computeOffsetInfo h tzid (floorToMinute (baseUtc - offs * MS_PER_SECOND)) = Inr info"
    using computeOffsetInfo_total [OF assms] by blast
  from candidateFor_eq [OF assms this] Cons.IH show ?case by simp
qed

lemma chooseResult_total:
  assumes "timezones h tzid = Some z"
  shows "\<exists>d. chooseResult h tzid baseUtc tzInfo cs = Inr d"
  using assms
  by (auto simp: chooseResult_def new_DateTz_def ensureTimezone_def
        split: list.splits option.splits)

lemma resolveInstant_error:
  "resolveInstant h tzid y m d hh mi s = Inl e \<Longrightarrow> e = InvalidTimezone tzid"
proof (cases "timezones h tzid")
  case None
  assume "resolveInstant h tzid y m d hh mi s = Inl e"
  with None show ?thesis by (simp add: resolveInstant_def ensureTimezone_def)
next
  case (Some z)
  assume err: "resolveInstant h tzid y m d hh mi s = Inl e"
  obtain cs where loop: "candidateLoop h tzid (Date_UTC y m d hh mi s) (Date_UTC y m d hh mi 0)
                    (distinctOffsets z) noCandidates = Inr cs"
    using candidateLoop_total [OF Some] by blast
  obtain r where "chooseResult h tzid (Date_UTC y m d hh mi s) z cs = Inr r"
    using chooseResult_total [OF Some] by blast
  with loop Some err show ?thesis
    by (simp add: resolveInstant_def ensureTimezone_def Let_def)
qed

lemma finishParse_not_meridiem: "finishParse h st tzarg \<noteq> Inl MissingMeridiem"
proof
  assume a: "finishParse h st tzarg = Inl MissingMeridiem"
  show False
  proof (cases "hourOf st")
    case (Inl e)
    then have "e \<noteq> MissingMeridiem"
      by (auto simp: hourOf_def split: option.splits if_splits)
    with a Inl show False by (simp add: finishParse_def)
  next
    case (Inr hh)
    with a resolveInstant_error show False
      by (fastforce simp: finishParse_def)
  qed
qed

text \<open>
  Claim C7. For every format pattern whose token segments include \<open>hh\<close> and neither
  \<open>aa\<close> nor \<open>AA\<close>, \<open>DateTz.parse\<close> throws the missing-meridiem error for every input
  string, every timezone argument and every host: the check precedes the scan loop, so
  no character of the input is read. A pattern whose segments include \<open>hh\<close> and at least
  one of \<open>aa\<close>, \<open>AA\<close> never ends in this error.
\<close>

theorem parse_meridiem_check:
  "(Token T_hh \<in> set (tokenizePattern (formatOf pattern))
      \<and> Token T_aa \<notin> set (tokenizePattern (formatOf pattern))
      \<and> Token T_AA \<notin> set (tokenizePattern (formatOf pattern))
      \<longrightarrow> parse h dateString pattern tzarg = Inl MissingMeridiem)
   \<and> (Token T_hh \<in> set (tokenizePattern (formatOf pattern))
      \<and> (Token T_aa \<in> set (tokenizePattern (formatOf pattern))
           \<or> Token T_AA \<in> set (tokenizePattern (formatOf pattern)))
      \<longrightarrow> parse h dateString pattern tzarg \<noteq> Inl MissingMeridiem)"
proof (intro conjI impI)
  assume "Token T_hh \<in> set (tokenizePattern (formatOf pattern))
      \<and> Token T_aa \<notin> set (tokenizePattern (formatOf pattern))
      \<and> Token T_AA \<notin> set (tokenizePattern (formatOf pattern))"
  then have "needsMeridiem (tokenizePattern (formatOf pattern))"
    by (auto simp: needsMeridiem_def list_ex_iff)
  then show "parse h dateString pattern tzarg = Inl MissingMeridiem"
    by (simp add: parse_def Let_def)
next
  assume "Token T_hh \<in> set (tokenizePattern (formatOf pattern))
      \<and> (Token T_aa \<in> set (tokenizePattern (formatOf pattern))
           \<or> Token T_AA \<in> set (tokenizePattern (formatOf pattern)))"
  then have no: "\<not> needsMeridiem (tokenizePattern (formatOf pattern))"
    by (auto simp: needsMeridiem_def list_ex_iff)
  show "parse h dateString pattern tzarg \<noteq> Inl MissingMeridiem"
    using no
      scanSegments_not_meridiem [of h dateString "tokenizePattern (formatOf pattern)" 0 emptyState]
      finishParse_not_meridiem
    by (auto simp: parse_def Let_def split: sum.splits prod.splits if_splits)
qed

theorem parse_meridiem_check_witness:
  "Token T_hh \<in> set (tokenizePattern (formatOf (Some ''YYYY-MM-DD hh:mm'')))
   \<and> Token T_aa \<notin> set (tokenizePattern (formatOf (Some ''YYYY-MM-DD hh:mm'')))
   \<and> Token T_AA \<notin> set (tokenizePattern (formatOf (Some ''YYYY-MM-DD hh:mm'')))
   \<and> parse sample_host ''2021-01-05 06:30'' (Some ''YYYY-MM-DD hh:mm'') (Some ''UTC'')
       = Inl MissingMeridiem
   \<and> Token T_hh \<in> set (tokenizePattern (formatOf (Some ''hh:mm AA'')))
   \<and> Token T_AA \<in> set (tokenizePattern (formatOf (Some ''hh:mm AA'')))
   \<and> parse sample_host ''07:15 PM'' (Some ''hh:mm AA'') (Some ''UTC'') \<noteq> Inl MissingMeridiem"
proof -
  have a: "tokenizePattern (formatOf (Some ''YYYY-MM-DD hh:mm'')) =
             [Token T_YYYY, Literal ''-'', Token T_MM, Literal ''-'', Token T_DD, Literal '' '',
              Token T_hh, Literal '':'', Token T_mm]"
    by code_simp
  have b: "tokenizePattern (formatOf (Some ''hh:mm AA'')) =
             [Token T_hh, Literal '':'', Token T_mm, Literal '' '', Token T_AA]"
    by code_simp
  from parse_meridiem_check [of "Some ''YYYY-MM-DD hh:mm''" sample_host "''2021-01-05 06:30''" "Some ''UTC''"]
       parse_meridiem_check [of "Some ''hh:mm AA''" sample_host "''07:15 PM''" "Some ''UTC''"]
  show ?thesis unfolding a b by simp
qed

subsection \<open>The class invariant is preserved\<close>

lemma wellFormed_cache [simp]: "wellFormed h (d\<lparr> offsetCache := c \<rparr>) = wellFormed h d"
  by (simp add: wellFormed_def)

lemma preserves_returnM [simp]: "preserves h (returnM x)"
  by (simp add: preserves_def returnM_def)

lemma preserves_throwM [simp]: "preserves h (throwM e)"
  by (simp add: preserves_def throwM_def)

lemma preserves_bindM: "preserves h m \<Longrightarrow> (\<And>x. preserves h (f x)) \<Longrightarrow> preserves h (bindM m f)"
  unfolding preserves_def bindM_def
proof (intro allI impI)
  fix d
  assume m: "\<forall>d. wellFormed h d \<longrightarrow> wellFormed h (snd (m d))"
    and f: "\<And>x. \<forall>d. wellFormed h d \<longrightarrow> wellFormed h (snd (f x d))"
    and d: "wellFormed h d"
  obtain r d' where md: "m d = (r, d')" by (cases "m d")
  with m d have d': "wellFormed h d'" by (metis snd_conv)
  show "wellFormed h (snd (case m d of (Inl e, this') \<Rightarrow> (Inl e, this')
                                      | (Inr x, this') \<Rightarrow> f x this'))"
    using md d' f by (cases r) auto
qed

lemma preserves_thenM: "preserves h m \<Longrightarrow> preserves h k \<Longrightarrow> preserves h (thenM m k)"
  by (simp add: thenM_def preserves_bindM)

lemma preserves_getOffsetInfo [simp]: "preserves h (getOffsetInfo h)"
  by (auto simp: preserves_def getOffsetInfo_def split: option.splits sum.splits)

lemma preserves_resolveOffsetSeconds [simp]: "preserves h (resolveOffsetSeconds h considerDst)"
proof (cases considerDst)
  case True
  then show ?thesis by (auto simp: resolveOffsetSeconds_def intro!: preserves_bindM)
next
  case False
  then show ?thesis by (simp add: resolveOffsetSeconds_def preserves_def)
qed

lemma preserves_getLocalParts [simp]: "preserves h (getLocalParts h considerDst)"
  unfolding getLocalParts_def
  by (rule preserves_bindM, simp, simp add: preserves_def)

lemma preserves_get_dayOfWeek [simp]: "preserves h (get_dayOfWeek h)"
  unfolding get_dayOfWeek_def
  by (rule preserves_bindM, simp, simp add: preserves_def)

lemma candidateFor_wellFormed:
  assumes "candidateFor h tzid baseUtc targetUtc offs = Inr r"
  shows "wellFormed h (cand_date r)"
proof -
  from assms obtain z where z: "timezones h tzid = Some z"
    by (auto simp: candidateFor_def new_DateTz_def ensureTimezone_def split: option.splits)
  obtain info where
    "computeOffsetInfo h tzid (floorToMinute (baseUtc - offs * MS_PER_SECOND)) = Inr info"
    using computeOffsetInfo_total [OF z] by blast
  from candidateFor_eq [OF z this] assms z show ?thesis
    by (auto simp: wellFormed_def floorToMinute_aligned)
qed

lemma classify_wellFormed:
  "allWellFormed h cs \<Longrightarrow> wellFormed h (cand_date r) \<Longrightarrow> allWellFormed h (classify cs r)"
  by (auto simp: allWellFormed_def classify_def split: option.splits)

lemma candidateLoop_wellFormed:
  "candidateLoop h tzid baseUtc targetUtc offsets cs = Inr cs' \<Longrightarrow> allWellFormed h cs
     \<Longrightarrow> allWellFormed h cs'"
proof (induction offsets arbitrary: cs)
  case Nil
  then show ?case by simp
next
  case (Cons offs offsets)
  then show ?case
    by (auto split: sum.splits dest: candidateFor_wellFormed intro: classify_wellFormed)
qed

lemma set_sortDstFirst [simp]: "set (sortDstFirst rs) = set rs"
  by (simp add: sortDstFirst_def)

lemma chooseResult_wellFormed:
  assumes "chooseResult h tzid baseUtc tzInfo cs = Inr d" and "allWellFormed h cs"
  shows "wellFormed h d"
proof (cases "sortDstFirst (exactMatches cs)")
  case (Cons r rs)
  then have "r \<in> set (exactMatches cs)"
    by (metis list.set_intros(1) set_sortDstFirst)
  with assms Cons show ?thesis by (auto simp: chooseResult_def allWellFormed_def)
next
  case Nil
  with assms show ?thesis
    by (auto simp: chooseResult_def allWellFormed_def split: option.splits
          dest: new_DateTz_wellFormed)
qed

lemma resolveInstant_wellFormed:
  assumes "resolveInstant h tzid y m d hh mi s = Inr r"
  shows "wellFormed h r"
proof -
  from assms obtain z where z: "timezones h tzid = Some z"
    by (auto simp: resolveInstant_def ensureTimezone_def split: option.splits)
  from assms z obtain cs res where
    loop: "candidateLoop h tzid (Date_UTC y m d hh mi s) (Date_UTC y m d hh mi 0)
             (distinctOffsets z) noCandidates = Inr cs"
    and res: "chooseResult h tzid (Date_UTC y m d hh mi s) z cs = Inr res"
    and r: "r = res\<lparr> offsetCache := None \<rparr>"
    by (auto simp: resolveInstant_def ensureTimezone_def Let_def split: sum.splits)
  have "allWellFormed h noCandidates"
    by (simp add: allWellFormed_def noCandidates_def)
  from candidateLoop_wellFormed [OF loop this] chooseResult_wellFormed [OF res] r
  show ?thesis by simp
qed

lemma parse_wellFormed: "parse h dateString pattern tzarg = Inr d \<Longrightarrow> wellFormed h d"
  by (auto simp: parse_def finishParse_def Let_def
        split: if_splits sum.splits prod.splits dest: resolveInstant_wellFormed)

lemma preserves_setFromLocalPartsWith [simp]: "preserves h (setFromLocalPartsWith h parts dayValue)"
  unfolding preserves_def
proof (intro allI impI)
  fix d assume wf: "wellFormed h d"
  let ?r = "parse h (formatParts parts (case dayValue of None \<Rightarrow> None
                 | Some x \<Rightarrow> clampDay (year parts) (month parts) x))
              (Some ''YYYY-MM-DD HH:mm:ss'') (Some (timezone d))"
  show "wellFormed h (snd (setFromLocalPartsWith h parts dayValue d))"
  proof (cases ?r)
    case (Inl e)
    with wf show ?thesis by (simp add: setFromLocalPartsWith_def Let_def)
  next
    case (Inr parsed)
    from parse_wellFormed [OF Inr] have "wellFormed h parsed" .
    then have "wellFormed h (d\<lparr> timestamp := timestamp parsed, timezone := timezone parsed,
                                offsetCache := None \<rparr>)"
      by (simp add: wellFormed_def)
    with Inr show ?thesis by (simp add: setFromLocalPartsWith_def Let_def)
  qed
qed

lemma preserves_setFromLocalParts [simp]: "preserves h (setFromLocalParts h parts)"
  by (simp add: setFromLocalParts_def)

lemma preserves_shiftCalendar [simp]: "preserves h (shiftCalendar h unit v)"
proof (cases "v = 0")
  case True
  then show ?thesis by (simp add: shiftCalendar_def)
next
  case False
  then show ?thesis
    unfolding shiftCalendar_def Let_def
    by (simp only: if_False) (rule preserves_bindM, simp, simp)
qed

lemma preserves_shift [simp]: "preserves h (shift h unit v)"
proof -
  have fixed: "preserves h (\<lambda>this. (Inr (), this\<lparr> timestamp := floorToMinute (timestamp this + v * ms),
                               offsetCache := None \<rparr>))" for ms
    by (simp add: preserves_def wellFormed_def floorToMinute_aligned)
  show ?thesis
    unfolding shift_def using fixed by (simp split: option.splits)
qed

lemma preserves_add [simp]: "preserves h (add h v unit)"
  by (simp add: add_def)

lemma preserves_subtract [simp]: "preserves h (subtract h v unit)"
  by (simp add: subtract_def)

lemma preserves_plus [simp]: "preserves h (plus h duration)"
proof (induction duration)
  case Nil
  then show ?case by simp
next
  case (Cons entry duration)
  obtain key rawValue where e: "entry = (key, rawValue)" by (cases entry)
  show ?case
    unfolding e using Cons.IH
    by (simp add: Let_def preserves_thenM split: option.splits)
qed

lemma preserves_minus [simp]: "preserves h (minus h duration)"
  by (simp add: minus_def split: sum.splits)

lemma preserves_set_field [simp]: "preserves h (set_field h v unit)"
  unfolding set_field_def
  by (rule preserves_bindM, simp, simp split: option.splits)

lemma preserves_startOfUnit [simp]: "preserves h (startOfUnit h normalized)"
  unfolding startOfUnit_def by (rule preserves_bindM, simp, simp)

lemma preserves_startOf_week:
  "preserves h (bindM (getLocalParts h True) (\<lambda>parts.
                 thenM (startOfUnit h ''day'')
                   (bindM (get_dayOfWeek h) (\<lambda>dayOfWeek.
                      if dayOfWeek \<noteq> 0
                      then thenM (shift h ''day'' (- dayOfWeek)) (startOfUnit h ''day'')
                      else returnM ()))))"
  apply (rule preserves_bindM, simp)
  apply (rule preserves_thenM, simp)
  apply (rule preserves_bindM, simp)
  apply (simp add: preserves_thenM)
  done

lemma preserves_startOf [simp]: "preserves h (startOf h unit)"
  unfolding startOf_def using preserves_startOf_week
  by (simp split: sum.splits)

lemma preserves_endOf [simp]: "preserves h (endOf h unit)"
  unfolding endOf_def
  by (simp add: preserves_thenM split: sum.splits)

lemma preserves_convertToTimezone [simp]: "preserves h (convertToTimezone h tzid)"
  by (auto simp: preserves_def convertToTimezone_def ensureTimezone_def wellFormed_def
        split: option.splits)

lemma preserves_cloneToTimezone [simp]: "preserves h (cloneToTimezone h tzid)"
  by (auto simp: preserves_def cloneToTimezone_def split: sum.splits)







subsection \<open>Calendar arithmetic\<close>

lemma MS_consts:
  "MS_PER_SECOND = 1000" "MS_PER_MINUTE = 60000" "MS_PER_HOUR = 3600000" "MS_PER_DAY = 86400000"
  "MS_PER_WEEK = 604800000"
  by (simp_all add: MS_PER_SECOND_def MS_PER_MINUTE_def MS_PER_HOUR_def MS_PER_DAY_def MS_PER_WEEK_def)

lemma time_split:
  "(t div 86400000) * 86400000 + ((t div 3600000) mod 24) * 3600000
     + ((t div 60000) mod 60) * 60000 = t - t mod (60000::int)"
proof -
  define q where "q = t div 60000"
  define r where "r = q div 60"
  have a: "t div 3600000 = r"
    unfolding r_def q_def using zdiv_zmult2_eq [of 60 t 60000] by simp
  have b: "t div 86400000 = r div 24"
    unfolding a [symmetric] using zdiv_zmult2_eq [of 24 t 3600000] by simp
  have c: "t - t mod 60000 = q * 60000"
    unfolding q_def by (simp only: minus_mod_eq_div_mult)
  have d: "q = r * 60 + q mod 60"
    unfolding r_def by (simp only: div_mult_mod_eq)
  have e: "r = (r div 24) * 24 + r mod 24"
    by (simp only: div_mult_mod_eq)
  have "(r div 24) * 86400000 + (r mod 24) * 3600000 + (q mod 60) * 60000 = q * 60000"
    using d e by linarith
  then show ?thesis
    unfolding a b c q_def [symmetric] .
qed


lemma MonthFromDay_range: "0 \<le> MonthFromDay y n \<and> MonthFromDay y n \<le> 11"
  unfolding MonthFromDay_def by (simp only: split: if_split) simp

lemma MakeDay_utcFields:
  "MakeDay (year (utcFields t)) (month (utcFields t)) (day (utcFields t)) = Day t"
proof -
  define y where "y = YearFromDay (Day t)"
  define n where "n = Day t - DayFromYear y"
  define m where "m = MonthFromDay y n"
  have f: "year (utcFields t) = y" "month (utcFields t) = m" "day (utcFields t) = n - monthStart y m + 1"
    by (simp_all add: utcFields_def Let_def y_def n_def m_def)
  have "0 \<le> m \<and> m \<le> 11" unfolding m_def by (rule MonthFromDay_range)
  then have "m div 12 = 0" "m mod 12 = m" by simp_all
  then have "MakeDay y m (n - monthStart y m + 1) = DayFromYear y + n"
    by (simp add: MakeDay_def Let_def)
  then show ?thesis unfolding f by (simp add: n_def)
qed

lemma Date_UTC_utcFields_minute:
  assumes "year (utcFields t) < 0 \<or> 99 < year (utcFields t)"
  shows "Date_UTC (year (utcFields t)) (month (utcFields t)) (day (utcFields t))
           (hour (utcFields t)) (minute (utcFields t)) 0 = floorToMinute t"
proof -
  have full: "MakeFullYear (year (utcFields t)) = year (utcFields t)"
    using assms by (auto simp: MakeFullYear_def)
  have hm: "hour (utcFields t) = (t div 3600000) mod 24" "minute (utcFields t) = (t div 60000) mod 60"
    by (simp_all add: utcFields_def Let_def MS_consts)
  have "Date_UTC (year (utcFields t)) (month (utcFields t)) (day (utcFields t))
           (hour (utcFields t)) (minute (utcFields t)) 0
        = (t div 86400000) * 86400000 + ((t div 3600000) mod 24) * 3600000
            + ((t div 60000) mod 60) * 60000"
    unfolding Date_UTC_def full MakeDay_utcFields hm by (simp add: MS_consts Day_def)
  also have "\<dots> = t - t mod 60000" by (rule time_split)
  also have "\<dots> = floorToMinute t"
    by (simp add: floorToMinute_def MS_consts minus_mod_eq_div_mult)
  finally show ?thesis .
qed

lemma div_succ:
  fixes a k :: int
  assumes k: "0 < k"
  shows "(a + 1) div k = a div k + (if (a + 1) mod k = 0 then 1 else 0)"
proof (cases "a mod k = k - 1")
  case True
  have "a = k * (a div k) + a mod k" by simp
  with True have "a + 1 = k * (a div k) + k" by linarith
  then have "a + 1 = k * (a div k + 1) + 0" by (simp add: algebra_simps)
  then have "(a + 1) div k = a div k + 1" "(a + 1) mod k = 0"
    using k by (metis add.right_neutral nonzero_mult_div_cancel_left less_irrefl,
                metis add.right_neutral mod_mult_self1_is_0)
  then show ?thesis by simp
next
  case False
  have r: "0 \<le> a mod k" "a mod k < k" using k by simp_all
  have eq: "a + 1 = k * (a div k) + (a mod k + 1)"
    using mult_div_mod_eq [of k a] by simp
  have lt: "a mod k + 1 < k" using r False by linarith
  have "(a + 1) div k = a div k"
    using int_div_pos_eq [OF eq _ lt] r by simp
  moreover have "(a + 1) mod k = a mod k + 1"
    using int_mod_pos_eq [OF eq _ lt] r by simp
  ultimately show ?thesis using r by simp
qed


lemma mod_shift:
  "(y - 1968) mod 4 = y mod (4::int)"
  "(y - 1900) mod 100 = y mod (100::int)"
  "(y - 1600) mod 400 = y mod (400::int)"
proof -
  have "(y + 4 * (- 492)) mod 4 = y mod (4::int)" by (rule mod_mult_self2)
  then show "(y - 1968) mod 4 = y mod (4::int)" by simp
  have "(y + 100 * (- 19)) mod 100 = y mod (100::int)" by (rule mod_mult_self2)
  then show "(y - 1900) mod 100 = y mod (100::int)" by simp
  have "(y + 400 * (- 4)) mod 400 = y mod (400::int)" by (rule mod_mult_self2)
  then show "(y - 1600) mod 400 = y mod (400::int)" by simp
qed

lemma DayFromYear_step: "DayFromYear (y + 1) = DayFromYear y + 365 + leapDays y"
proof -
  have a: "(y - 1968) div 4 = (y - 1969) div 4 + (if y mod 4 = 0 then 1 else 0)"
    using div_succ [of 4 "y - 1969"] by (simp add: mod_shift)
  have b: "(y - 1900) div 100 = (y - 1901) div 100 + (if y mod 100 = 0 then 1 else 0)"
    using div_succ [of 100 "y - 1901"] by (simp add: mod_shift)
  have c: "(y - 1600) div 400 = (y - 1601) div 400 + (if y mod 400 = 0 then 1 else 0)"
    using div_succ [of 400 "y - 1601"] by (simp add: mod_shift)
  have d1: "y mod 100 = 0" if "y mod 400 = 0"
  proof -
    have "y mod 400 mod 100 = y mod 100" by (rule mod_mod_cancel) simp
    with that show ?thesis by simp
  qed
  have d2: "y mod 4 = 0" if "y mod 100 = 0"
  proof -
    have "y mod 100 mod 4 = y mod 4" by (rule mod_mod_cancel) simp
    with that show ?thesis by simp
  qed
  have e: "DayFromYear (y + 1) = 365 * (y - 1969) + (y - 1968) div 4 - (y - 1900) div 100
          + (y - 1600) div 400"
    by (simp add: DayFromYear_def)
  have l: "leapDays y = (if y mod 4 = 0 then 1 else 0) - (if y mod 100 = 0 then 1 else 0)
                          + (if y mod 400 = 0 then 1 else 0)"
    using d1 d2 by (simp add: leapDays_def isLeapYear_def)
  define A B C i1 i2 i3 where "A = (y - 1969) div 4" and "B = (y - 1901) div 100"
    and "C = (y - 1601) div 400" and "i1 = (if y mod 4 = 0 then 1 else 0::int)"
    and "i2 = (if y mod 100 = 0 then 1 else 0::int)" and "i3 = (if y mod 400 = 0 then 1 else 0::int)"
  have lin: "365 * (y - 1969) + (A + i1) - (B + i2) + (C + i3)
          = 365 * (y - 1970) + A - B + C + 365 + (i1 - i2 + i3)"
    by (simp add: algebra_simps)
  have lhs: "DayFromYear (y + 1) = 365 * (y - 1969) + (A + i1) - (B + i2) + (C + i3)"
    unfolding e a b c A_def B_def C_def i1_def i2_def i3_def by (rule refl)
  have rhs: "DayFromYear y + 365 + leapDays y
               = 365 * (y - 1970) + A - B + C + 365 + (i1 - i2 + i3)"
    unfolding l DayFromYear_def A_def B_def C_def i1_def i2_def i3_def by (rule refl)
  show ?thesis unfolding lhs rhs by (rule lin)
qed


lemma div_bounds:
  fixes a k :: int
  assumes "0 < k"
  shows "k * (a div k) \<le> a \<and> a < k * (a div k) + k"
proof -
  have "a = k * (a div k) + a mod k" by simp
  moreover have "0 \<le> a mod k" "a mod k < k" using assms by simp_all
  ultimately show ?thesis by (intro conjI) linarith+
qed

lemma DayFromYear_bounds:
  "146097 * y - 287811697 \<le> 400 * DayFromYear y
   \<and> 400 * DayFromYear y \<le> 146097 * y - 287810497"
proof -
  define A B C where "A = (y - 1969) div 4" and "B = (y - 1901) div 100"
    and "C = (y - 1601) div 400"
  have a: "4 * A \<le> y - 1969" "y - 1969 < 4 * A + 4"
    unfolding A_def using div_bounds [of 4 "y - 1969"] by simp_all
  have b: "100 * B \<le> y - 1901" "y - 1901 < 100 * B + 100"
    unfolding B_def using div_bounds [of 100 "y - 1901"] by simp_all
  have c: "400 * C \<le> y - 1601" "y - 1601 < 400 * C + 400"
    unfolding C_def using div_bounds [of 400 "y - 1601"] by simp_all
  have d: "400 * DayFromYear y = 146000 * y - 287620000 + 400 * A - 400 * B + 400 * C"
    by (simp add: DayFromYear_def A_def B_def C_def)
  show ?thesis
  proof (intro conjI)
    show "146097 * y - 287811697 \<le> 400 * DayFromYear y"
      unfolding d using a b c by linarith
    show "400 * DayFromYear y \<le> 146097 * y - 287810497"
      unfolding d using a b c by linarith
  qed
qed

lemma YearFromDay_bracket:
  "DayFromYear (YearFromDay d) \<le> d \<and> d < DayFromYear (YearFromDay d + 1)"
proof -
  define q where "q = (400 * d) div 146097"
  define y0 where "y0 = 1970 + q"
  have q: "146097 * q \<le> 400 * d" "400 * d < 146097 * q + 146097"
    unfolding q_def using div_bounds [of 146097 "400 * d"] by simp_all
  have yq: "y0 - 1 = q + 1969" "y0 + 1 + 1 = q + 1972" by (simp_all add: y0_def)
  have lo: "400 * DayFromYear (q + 1969) \<le> 146097 * q - 145504"
    using DayFromYear_bounds [of "q + 1969"] by (simp add: algebra_simps)
  have hi: "146097 * q + 291587 \<le> 400 * DayFromYear (q + 1972)"
    using DayFromYear_bounds [of "q + 1972"] by (simp add: algebra_simps)
  have low: "DayFromYear (y0 - 1) \<le> d"
    unfolding yq using q lo by linarith
  have high: "d < DayFromYear (y0 + 1 + 1)"
    unfolding yq using q hi by linarith
  have y: "YearFromDay d =
             (if d < DayFromYear y0 then y0 - 1
              else if DayFromYear (y0 + 1) \<le> d then y0 + 1
              else y0)"
    by (simp add: YearFromDay_def Let_def q_def y0_def)
  show ?thesis
  proof (cases "d < DayFromYear y0")
    case True
    with low y show ?thesis by simp
  next
    case False
    show ?thesis
    proof (cases "DayFromYear (y0 + 1) \<le> d")
      case True
      with False high y show ?thesis by simp
    next
      case F2: False
      with False y show ?thesis by simp
    qed
  qed
qed



lemma monthStart_values:
  "monthStart y 0 = 0" "monthStart y 1 = 31" "monthStart y 2 = 59 + leapDays y"
  "monthStart y 3 = 90 + leapDays y" "monthStart y 4 = 120 + leapDays y"
  "monthStart y 5 = 151 + leapDays y" "monthStart y 6 = 181 + leapDays y"
  "monthStart y 7 = 212 + leapDays y" "monthStart y 8 = 243 + leapDays y"
  "monthStart y 9 = 273 + leapDays y" "monthStart y 10 = 304 + leapDays y"
  "monthStart y 11 = 334 + leapDays y"
  by (simp_all add: monthStart_def)

lemma daysInMonth_values:
  "daysInMonth y 0 = Some 31" "daysInMonth y 1 = Some (28 + leapDays y)"
  "daysInMonth y 2 = Some 31" "daysInMonth y 3 = Some 30" "daysInMonth y 4 = Some 31"
  "daysInMonth y 5 = Some 30" "daysInMonth y 6 = Some 31" "daysInMonth y 7 = Some 31"
  "daysInMonth y 8 = Some 30" "daysInMonth y 9 = Some 31" "daysInMonth y 10 = Some 30"
  "daysInMonth y 11 = Some 31"
  by (simp_all add: daysInMonth_def daysPerMonth_def leapDays_def)

lemma month_cases:
  fixes m :: int
  assumes "0 \<le> m" "m \<le> 11"
  shows "m = 0 \<or> m = 1 \<or> m = 2 \<or> m = 3 \<or> m = 4 \<or> m = 5 \<or> m = 6 \<or> m = 7 \<or> m = 8
         \<or> m = 9 \<or> m = 10 \<or> m = 11"
  using assms by presburger

lemma leapDays_range: "leapDays y = 0 \<or> leapDays y = 1"
  by (simp add: leapDays_def)





subsection \<open>Decimal text\<close>

declare string_of_nat.simps [simp del]

lemma digit_char_props:
  assumes "a < 10"
  shows "is_digit (digit_char a)" "digit_value (digit_char a) = a"
  using assms by (simp_all add: is_digit_def digit_value_def digit_char_def)

lemma string_of_nat_1: "n < 10 \<Longrightarrow> string_of_nat n = [digit_char n]"
  by (subst string_of_nat.simps) simp

lemma string_of_nat_2:
  "10 \<le> n \<Longrightarrow> n < 100 \<Longrightarrow> string_of_nat n = [digit_char (n div 10), digit_char (n mod 10)]"
  by (subst string_of_nat.simps) (simp add: string_of_nat_1)

lemma string_of_nat_3:
  "100 \<le> n \<Longrightarrow> n < 1000 \<Longrightarrow>
     string_of_nat n = [digit_char (n div 100), digit_char (n div 10 mod 10), digit_char (n mod 10)]"
  by (subst string_of_nat.simps) (simp add: string_of_nat_2 div_mult2_eq [symmetric])

lemma string_of_nat_4:
  "1000 \<le> n \<Longrightarrow> n < 10000 \<Longrightarrow>
     string_of_nat n = [digit_char (n div 1000), digit_char (n div 100 mod 10),
                        digit_char (n div 10 mod 10), digit_char (n mod 10)]"
  by (subst string_of_nat.simps) (simp add: string_of_nat_3 div_mult2_eq [symmetric])

lemma string_of_nat_5:
  "10000 \<le> n \<Longrightarrow> n < 100000 \<Longrightarrow>
     string_of_nat n = [digit_char (n div 10000), digit_char (n div 1000 mod 10),
                        digit_char (n div 100 mod 10), digit_char (n div 10 mod 10),
                        digit_char (n mod 10)]"
  by (subst string_of_nat.simps) (simp add: string_of_nat_4 div_mult2_eq [symmetric])

lemma digit_char_0: "CHR ''0'' = digit_char 0"
  unfolding digit_char_def by code_simp

lemma pad_2: "0 \<le> v \<Longrightarrow> v < 100 \<Longrightarrow> pad v 2 = two_digits (nat v)"
  by (cases "nat v < 10")
     (auto simp: pad_def String_of_def padStart_def two_digits_def string_of_nat_1 string_of_nat_2
           digit_char_0)


lemma Number_two_digits: "n < 100 \<Longrightarrow> Number_of h (two_digits n) = Some (int n)"
  by (simp add: Number_of_def two_digits_def decimal_value_def digit_char_props)

lemma Number_four_digits: "n < 10000 \<Longrightarrow> Number_of h (four_digits n) = Some (int n)"
proof -
  assume n: "n < 10000"
  have 1: "n = 10 * (n div 10) + n mod 10" by simp
  have 2: "n div 10 = 10 * (n div 100) + n div 10 mod 10"
    using div_mult_mod_eq [of "n div 10" 10] by (simp add: div_mult2_eq [symmetric] mult.commute)
  have 3: "n div 100 = 10 * (n div 1000) + n div 100 mod 10"
    using div_mult_mod_eq [of "n div 100" 10] by (simp add: div_mult2_eq [symmetric] mult.commute)
  have "n = 1000 * (n div 1000) + 100 * (n div 100 mod 10) + 10 * (n div 10 mod 10) + n mod 10"
    using 1 2 3 by linarith
  moreover have "n div 1000 < 10" using n by simp
  ultimately show ?thesis
    by (simp add: Number_of_def four_digits_def decimal_value_def digit_char_props)
qed

subsection \<open>The candidate loop in closed form\<close>

lemma computeOffsetInfo_infoAt:
  "timezones h tzid = Some z \<Longrightarrow> computeOffsetInfo h tzid t = Inr (infoAt h tzid t)"
  using computeOffsetInfo_total [of h tzid z t] by (auto simp: infoAt_def)

lemma candidateFor_at:
  assumes "timezones h tzid = Some z"
  shows "candidateFor h tzid baseUtc targetUtc offs =
           Inr (candidateAt h tzid (floorToMinute (baseUtc - offs * MS_PER_SECOND)) targetUtc)"
  using candidateFor_eq [OF assms computeOffsetInfo_infoAt [OF assms]]
  by (simp add: candidateAt_def offsetAt_def)

lemma candidateLoop_fold:
  assumes "timezones h tzid = Some z"
  shows "candidateLoop h tzid baseUtc targetUtc offsets cs =
           Inr (fold (\<lambda>offs acc. classify acc
                        (candidateAt h tzid (floorToMinute (baseUtc - offs * MS_PER_SECOND)) targetUtc))
                  offsets cs)"
  by (induction offsets arbitrary: cs) (simp_all add: candidateFor_at [OF assms])

lemma infoAt_fixed:
  "timezones h tzid = Some z \<Longrightarrow> dst z = sdt z \<Longrightarrow>
     infoAt h tzid t = \<lparr> offsetSeconds = sdt z, isDst = False \<rparr>"
  by (simp add: infoAt_def computeOffsetInfo_def ensureTimezone_def)

lemma sortDstFirst_single [simp]: "sortDstFirst [r] = [r]"
  by (simp add: sortDstFirst_def)

lemma resolveInstant_valid:
  assumes "timezones h tzid = Some z"
  shows "resolveInstant h tzid y m d hh mi s =
           (case chooseResult h tzid (Date_UTC y m d hh mi s) z
                   (fold (\<lambda>offs acc. classify acc
                            (candidateAt h tzid
                               (floorToMinute (Date_UTC y m d hh mi s - offs * MS_PER_SECOND))
                               (Date_UTC y m d hh mi 0)))
                      (distinctOffsets z) noCandidates) of
              Inl e \<Rightarrow> Inl e
            | Inr result \<Rightarrow> Inr (result\<lparr> offsetCache := None \<rparr>))"
  using assms
  by (simp add: resolveInstant_def ensureTimezone_def Let_def candidateLoop_fold [OF assms]
        del: candidateLoop.simps)

lemma chooseResult_single:
  "chooseResult h tzid baseUtc z (classify noCandidates r) = Inr (cand_date r)"
  by (auto simp: chooseResult_def classify_def noCandidates_def sortDstFirst_def)

lemma resolveInstant_fixed:
  assumes "timezones h tzid = Some z" and "dst z = sdt z"
  shows "resolveInstant h tzid y m d hh mi s =
           Inr \<lparr> timestamp = floorToMinute (Date_UTC y m d hh mi s - sdt z * MS_PER_SECOND),
                 timezone = tzid, offsetCache = None \<rparr>"
  unfolding resolveInstant_valid [OF assms(1)]
  using assms(2) by (simp add: distinctOffsets_def chooseResult_single candidateAt_def)

lemma chooseResult_pair:
  "chooseResult h tzid baseUtc z (classify (classify noCandidates r1) r2)
     = Inr (spec_priority [r1, r2] fallback)"
proof -
  consider "cand_delta r1 = 0" | "cand_delta r1 > 0" | "cand_delta r1 < 0" by linarith
  then show ?thesis
  proof cases
    case 1
    then show ?thesis
      by (auto simp: chooseResult_def classify_def noCandidates_def sortDstFirst_def
            spec_priority_def preferDaylight_def nearest_def)
  next
    case 2
    then show ?thesis
      by (auto simp: chooseResult_def classify_def noCandidates_def sortDstFirst_def
            spec_priority_def preferDaylight_def nearest_def)
  next
    case 3
    then show ?thesis
      by (auto simp: chooseResult_def classify_def noCandidates_def sortDstFirst_def
            spec_priority_def preferDaylight_def nearest_def)
  qed
qed


lemma Date_UTC_seconds: "Date_UTC y m d hh mi s = Date_UTC y m d hh mi 0 + s * 1000"
  by (simp add: Date_UTC_def MS_consts)

lemma Date_UTC_minute_aligned: "Date_UTC y m d hh mi 0 mod 60000 = 0"
proof -
  have "Date_UTC y m d hh mi 0
          = 60000 * (MakeDay (MakeFullYear y) m d * 1440 + hh * 60 + mi)"
    by (simp add: Date_UTC_def MS_consts)
  then show ?thesis by simp
qed

lemma floorToMinute_shift:
  assumes "T mod 60000 = 0" "off mod 60 = 0" "0 \<le> s" "s < 60"
  shows "floorToMinute (T + s * 1000 - off * MS_PER_SECOND) = T - off * MS_PER_SECOND"
proof -
  obtain a where a: "T = 60000 * a" using assms(1) by (metis mod_eq_0_iff_dvd dvd_def)
  obtain b where b: "off = 60 * b" using assms(2) by (metis mod_eq_0_iff_dvd dvd_def)
  have e: "T + s * 1000 - off * 1000 = 60000 * (a - b) + s * 1000"
    by (simp add: a b algebra_simps)
  have "(T + s * 1000 - off * 1000) div 60000 = a - b"
    by (rule int_div_pos_eq [OF e]) (use assms(3,4) in linarith)+
  then show ?thesis
    by (simp add: floorToMinute_def MS_consts a b algebra_simps)
qed

lemma candidate_instant:
  assumes "off mod 60 = 0" "0 \<le> s" "s < 60"
  shows "floorToMinute (Date_UTC y m d hh mi s - off * MS_PER_SECOND)
           = Date_UTC y m d hh mi 0 - off * MS_PER_SECOND"
  using floorToMinute_shift [OF Date_UTC_minute_aligned assms, of y m d hh mi]
  by (simp add: Date_UTC_seconds [of y m d hh mi s])

lemma localDelta_exact:
  assumes "T mod 60000 = 0" and "year (utcFields T) < 0 \<or> 99 < year (utcFields T)"
  shows "localDelta (T - off * MS_PER_SECOND) off T = 0"
  using Date_UTC_utcFields_minute [OF assms(2)] assms(1)
  by (simp add: localDelta_def Let_def floorToMinute_id)

lemma isDst_of_offset:
  assumes "timezones h tzid = Some z" and "sdt z \<noteq> dst z"
  shows "offsetAt h tzid t = dst z \<Longrightarrow> isDst (infoAt h tzid t)"
    and "offsetAt h tzid t = sdt z \<Longrightarrow> \<not> isDst (infoAt h tzid t)"
  using assms
  by (auto simp: offsetAt_def infoAt_def computeOffsetInfo_def ensureTimezone_def
        split: option.splits if_splits)

subsection \<open>The resolution priority\<close>

text \<open>
  Claim C3. In a zone of the catalogue whose two offsets differ, the parser builds one
  candidate per offset, at the instant \<open>desiredLocalAsUtc - offset * 1000\<close> (truncated to
  the minute by the constructor), standard offset first, and returns the candidate that
  the specification's priority selects: among the exact matches the daylight-flagged
  one, else the candidate after the target with the smallest delta (a tie going to the
  daylight-flagged one), else the candidate before the target with the delta closest to
  zero, else the fallback at the standard offset. In particular, when both candidates are
  exact matches and one is daylight-flagged, the flagged one is returned; and for a
  wall-clock time inside an overlap (each candidate instant shows the target under its
  own offset, whole-minute offsets, target outside the years 0 to 99) the result is the
  occurrence at the daylight offset, it is daylight-flagged, and it is the earlier of the
  two when the daylight offset is the larger one.
\<close>

theorem resolveInstant_priority:
  assumes "timezones h tzid = Some z" and "sdt z \<noteq> dst z"
  shows
    "let baseUtc = Date_UTC y m d hh mi s;
         targetUtc = Date_UTC y m d hh mi 0;
         t1 = floorToMinute (baseUtc - sdt z * MS_PER_SECOND);
         t2 = floorToMinute (baseUtc - dst z * MS_PER_SECOND);
         c1 = candidateAt h tzid t1 targetUtc;
         c2 = candidateAt h tzid t2 targetUtc;
         fallback = \<lparr> timestamp = t1, timezone = tzid, offsetCache = None \<rparr>
     in candidateFor h tzid baseUtc targetUtc (sdt z) = Inr c1
      \<and> candidateFor h tzid baseUtc targetUtc (dst z) = Inr c2
      \<and> resolveInstant h tzid y m d hh mi s
            = Inr ((spec_priority [c1, c2] fallback)\<lparr> offsetCache := None \<rparr>)
      \<and> (cand_delta c1 = 0 \<and> cand_delta c2 = 0 \<and> (cand_isDst c1 \<or> cand_isDst c2) \<longrightarrow>
            resolveInstant h tzid y m d hh mi s
              = Inr ((cand_date (if cand_isDst c1 then c1 else c2))\<lparr> offsetCache := None \<rparr>))
      \<and> (sdt z mod 60 = 0 \<and> dst z mod 60 = 0 \<and> 0 \<le> s \<and> s < 60
           \<and> (year (utcFields targetUtc) < 0 \<or> 99 < year (utcFields targetUtc))
           \<and> offsetAt h tzid (targetUtc - sdt z * MS_PER_SECOND) = sdt z
           \<and> offsetAt h tzid (targetUtc - dst z * MS_PER_SECOND) = dst z \<longrightarrow>
            resolveInstant h tzid y m d hh mi s
              = Inr \<lparr> timestamp = targetUtc - dst z * MS_PER_SECOND, timezone = tzid,
                      offsetCache = None \<rparr>
            \<and> isDst (infoAt h tzid (targetUtc - dst z * MS_PER_SECOND))
            \<and> (sdt z < dst z \<longrightarrow>
                  targetUtc - dst z * MS_PER_SECOND < targetUtc - sdt z * MS_PER_SECOND))"
proof -
  define baseUtc where "baseUtc = Date_UTC y m d hh mi s"
  define targetUtc where "targetUtc = Date_UTC y m d hh mi 0"
  define t1 where "t1 = floorToMinute (baseUtc - sdt z * MS_PER_SECOND)"
  define t2 where "t2 = floorToMinute (baseUtc - dst z * MS_PER_SECOND)"
  define c1 where "c1 = candidateAt h tzid t1 targetUtc"
  define c2 where "c2 = candidateAt h tzid t2 targetUtc"
  define fallback where "fallback = \<lparr> timestamp = t1, timezone = tzid, offsetCache = None \<rparr>"
  have built: "candidateFor h tzid baseUtc targetUtc (sdt z) = Inr c1"
              "candidateFor h tzid baseUtc targetUtc (dst z) = Inr c2"
    by (simp_all add: candidateFor_at [OF assms(1)] c1_def c2_def t1_def t2_def)
  have res: "resolveInstant h tzid y m d hh mi s
               = Inr ((spec_priority [c1, c2] fallback)\<lparr> offsetCache := None \<rparr>)"
    unfolding resolveInstant_valid [OF assms(1)]
    using assms(2)
    by (simp add: distinctOffsets_def chooseResult_pair [where fallback = fallback]
          c1_def c2_def t1_def t2_def baseUtc_def targetUtc_def)
  have both: "spec_priority [c1, c2] fallback = cand_date (if cand_isDst c1 then c1 else c2)"
    if "cand_delta c1 = 0" "cand_delta c2 = 0" "cand_isDst c1 \<or> cand_isDst c2"
    using that by (auto simp: spec_priority_def preferDaylight_def)
  have overlap:
    "resolveInstant h tzid y m d hh mi s
       = Inr \<lparr> timestamp = targetUtc - dst z * MS_PER_SECOND, timezone = tzid,
               offsetCache = None \<rparr>
     \<and> isDst (infoAt h tzid (targetUtc - dst z * MS_PER_SECOND))"
    if minutes: "sdt z mod 60 = 0" "dst z mod 60 = 0" and sec: "0 \<le> s" "s < 60"
      and yr: "year (utcFields targetUtc) < 0 \<or> 99 < year (utcFields targetUtc)"
      and o1: "offsetAt h tzid (targetUtc - sdt z * MS_PER_SECOND) = sdt z"
      and o2: "offsetAt h tzid (targetUtc - dst z * MS_PER_SECOND) = dst z"
  proof -
    have i1: "t1 = targetUtc - sdt z * MS_PER_SECOND"
      unfolding t1_def baseUtc_def targetUtc_def by (rule candidate_instant [OF minutes(1) sec])
    have i2: "t2 = targetUtc - dst z * MS_PER_SECOND"
      unfolding t2_def baseUtc_def targetUtc_def by (rule candidate_instant [OF minutes(2) sec])
    have al: "targetUtc mod 60000 = 0"
      unfolding targetUtc_def by (rule Date_UTC_minute_aligned)
    have d1: "cand_delta c1 = 0"
      using localDelta_exact [OF al yr, of "sdt z"] o1 by (simp add: c1_def candidateAt_def i1)
    have d2: "cand_delta c2 = 0"
      using localDelta_exact [OF al yr, of "dst z"] o2 by (simp add: c2_def candidateAt_def i2)
    have f1: "\<not> cand_isDst c1"
      using isDst_of_offset(2) [OF assms, of "targetUtc - sdt z * MS_PER_SECOND"] o1
      by (simp add: c1_def candidateAt_def i1)
    have f2: "cand_isDst c2"
      using isDst_of_offset(1) [OF assms, of "targetUtc - dst z * MS_PER_SECOND"] o2
      by (simp add: c2_def candidateAt_def i2)
    from both [OF d1 d2] f1 f2 have "spec_priority [c1, c2] fallback = cand_date c2" by simp
    with res f2 show ?thesis by (simp add: c2_def candidateAt_def i2)
  qed
  show ?thesis
    unfolding Let_def
    using built res both overlap
    unfolding baseUtc_def targetUtc_def t1_def t2_def c1_def c2_def fallback_def
    by (simp add: MS_consts)
qed


theorem resolveInstant_priority_witness:
  "timezones sample_host ''America/New_York'' = Some \<lparr> sdt = - 18000, dst = - 14400 \<rparr>
   \<and> offsetAt sample_host ''America/New_York'' 1636266600000 = - 18000
   \<and> offsetAt sample_host ''America/New_York'' 1636263000000 = - 14400
   \<and> resolveInstant sample_host ''America/New_York'' 2021 10 7 1 30 0
       = Inr \<lparr> timestamp = 1636263000000, timezone = ''America/New_York'', offsetCache = None \<rparr>"
proof -
  let ?z = "\<lparr> sdt = - 18000, dst = - 14400 \<rparr>"
  have tz: "timezones sample_host ''America/New_York'' = Some ?z"
    by (simp add: sample_host_def sample_timezones_def)
  have ne: "sdt ?z \<noteq> dst ?z" by simp
  have target: "Date_UTC 2021 10 7 1 30 0 = 1636248600000" by code_simp
  have yr: "year (utcFields 1636248600000) = 2021" by code_simp
  have o1: "offsetAt sample_host ''America/New_York'' 1636266600000 = - 18000" by code_simp
  have o2: "offsetAt sample_host ''America/New_York'' 1636263000000 = - 14400" by code_simp
  note inst = resolveInstant_priority [OF tz ne, of 2021 10 7 1 30 0, unfolded Let_def target]
  have pre: "sdt ?z mod 60 = 0 \<and> dst ?z mod 60 = 0 \<and> (0::int) \<le> 0 \<and> (0::int) < 60
           \<and> (year (utcFields 1636248600000) < 0 \<or> 99 < year (utcFields 1636248600000))
           \<and> offsetAt sample_host ''America/New_York'' (1636248600000 - sdt ?z * MS_PER_SECOND) = sdt ?z
           \<and> offsetAt sample_host ''America/New_York'' (1636248600000 - dst ?z * MS_PER_SECOND) = dst ?z"
    by (simp add: yr o1 o2 MS_consts)
  from inst [THEN conjunct2, THEN conjunct2, THEN conjunct2, THEN conjunct2, THEN mp, OF pre]
  have "resolveInstant sample_host ''America/New_York'' 2021 10 7 1 30 0
       = Inr \<lparr> timestamp = 1636263000000, timezone = ''America/New_York'', offsetCache = None \<rparr>"
    by (simp add: MS_consts)
  with tz o1 o2 show ?thesis by simp
qed

subsection \<open>One exact candidate\<close>

lemma resolveInstant_exact:
  assumes tz: "timezones h tzid = Some z"
    and minutes: "sdt z mod 60 = 0" "dst z mod 60 = 0"
    and sec: "0 \<le> s" "s < 60"
    and target: "target = Date_UTC y m d hh mi 0"
    and yr: "year (utcFields target) < 0 \<or> 99 < year (utcFields target)"
    and off: "off = sdt z \<or> off = dst z"
    and exact: "offsetAt h tzid (target - off * MS_PER_SECOND) = off"
    and other: "\<And>offs. offs = sdt z \<or> offs = dst z \<Longrightarrow> offs \<noteq> off
                  \<Longrightarrow> \<not> exactDaylight h tzid target offs"
  shows "resolveInstant h tzid y m d hh mi s
           = Inr \<lparr> timestamp = target - off * MS_PER_SECOND, timezone = tzid, offsetCache = None \<rparr>"
proof (cases "dst z = sdt z")
  case True
  then have "off = sdt z" using off by simp
  then show ?thesis
    using resolveInstant_fixed [OF tz True, of y m d hh mi s]
      candidate_instant [OF minutes(1) sec, of y m d hh mi] target by simp
next
  case False
  then have ne: "sdt z \<noteq> dst z" by simp
  define c1 where "c1 = candidateAt h tzid (target - sdt z * MS_PER_SECOND) target"
  define c2 where "c2 = candidateAt h tzid (target - dst z * MS_PER_SECOND) target"
  define fallback where
    "fallback = \<lparr> timestamp = target - sdt z * MS_PER_SECOND, timezone = tzid, offsetCache = None \<rparr>"
  have i1: "floorToMinute (Date_UTC y m d hh mi s - sdt z * MS_PER_SECOND)
              = target - sdt z * MS_PER_SECOND"
    unfolding target by (rule candidate_instant [OF minutes(1) sec])
  have i2: "floorToMinute (Date_UTC y m d hh mi s - dst z * MS_PER_SECOND)
              = target - dst z * MS_PER_SECOND"
    unfolding target by (rule candidate_instant [OF minutes(2) sec])
  have res: "resolveInstant h tzid y m d hh mi s
               = Inr ((spec_priority [c1, c2] fallback)\<lparr> offsetCache := None \<rparr>)"
    unfolding resolveInstant_valid [OF tz]
    using ne
    by (simp add: distinctOffsets_def chooseResult_pair [where fallback = fallback]
          c1_def c2_def i1 i2 target [symmetric])
  have al: "target mod 60000 = 0"
    unfolding target by (rule Date_UTC_minute_aligned)
  from off show ?thesis
  proof
    assume o: "off = sdt z"
    have d1: "cand_delta c1 = 0"
      using localDelta_exact [OF al yr, of "sdt z"] exact o by (simp add: c1_def candidateAt_def)
    have "\<not> exactDaylight h tzid target (dst z)"
      using other [of "dst z"] o ne by simp
    then have n2: "\<not> (cand_delta c2 = 0 \<and> cand_isDst c2)"
      by (simp add: exactDaylight_def c2_def Let_def)
    have "spec_priority [c1, c2] fallback = cand_date c1"
      using d1 n2 by (auto simp: spec_priority_def preferDaylight_def)
    with res o show ?thesis by (simp add: c1_def candidateAt_def)
  next
    assume o: "off = dst z"
    have d2: "cand_delta c2 = 0"
      using localDelta_exact [OF al yr, of "dst z"] exact o by (simp add: c2_def candidateAt_def)
    have f2: "cand_isDst c2"
      using isDst_of_offset(1) [OF tz ne, of "target - dst z * MS_PER_SECOND"] exact o
      by (simp add: c2_def candidateAt_def)
    have "\<not> exactDaylight h tzid target (sdt z)"
      using other [of "sdt z"] o ne by simp
    then have n1: "\<not> (cand_delta c1 = 0 \<and> cand_isDst c1)"
      by (simp add: exactDaylight_def c1_def Let_def)
    have "spec_priority [c1, c2] fallback = cand_date c2"
      using d2 f2 n1 by (auto simp: spec_priority_def preferDaylight_def)
    with res o show ?thesis by (simp add: c2_def candidateAt_def)
  qed
qed

lemma resolveInstant_total:
  assumes "timezones h tzid = Some z"
  shows "\<exists>r. resolveInstant h tzid y m d hh mi s = Inr r"
proof -
  obtain r where "chooseResult h tzid (Date_UTC y m d hh mi s) z
                    (fold (\<lambda>offs acc. classify acc
                             (candidateAt h tzid
                                (floorToMinute (Date_UTC y m d hh mi s - offs * MS_PER_SECOND))
                                (Date_UTC y m d hh mi 0)))
                       (distinctOffsets z) noCandidates) = Inr r"
    using chooseResult_total [OF assms] by blast
  then show ?thesis
    unfolding resolveInstant_valid [OF assms] by simp
qed

lemma parse_scanned:
  assumes "scanSegments h s (tokenizePattern (formatOf pattern)) 0 emptyState = Inr (length s, st)"
    and "\<not> needsMeridiem (tokenizePattern (formatOf pattern))"
  shows "parse h s pattern tzarg = finishParse h st tzarg"
  using assms by (simp add: parse_def Let_def)

subsection \<open>The seconds of a parsed text\<close>

lemma chooseResult_base:
  assumes "floorToMinute (baseUtc - sdt z * MS_PER_SECOND) = floorToMinute (baseUtc' - sdt z * MS_PER_SECOND)"
  shows "chooseResult h tzid baseUtc z cs = chooseResult h tzid baseUtc' z cs"
  using assms by (simp add: chooseResult_def new_DateTz_def split: list.splits option.splits sum.splits)

lemma resolveInstant_seconds_zero:
  assumes "\<forall>z. timezones h tzid = Some z \<longrightarrow> sdt z mod 60 = 0 \<and> dst z mod 60 = 0"
    and "0 \<le> s" "s < 60"
  shows "resolveInstant h tzid y m d hh mi s = resolveInstant h tzid y m d hh mi 0"
proof (cases "timezones h tzid")
  case None
  then show ?thesis by (simp add: resolveInstant_def ensureTimezone_def)
next
  case (Some z)
  with assms(1) have m: "sdt z mod 60 = 0" "dst z mod 60 = 0" by simp_all
  have c: "floorToMinute (Date_UTC y m d hh mi s - off * MS_PER_SECOND)
             = floorToMinute (Date_UTC y m d hh mi 0 - off * MS_PER_SECOND)"
    if "off mod 60 = 0" for off
    using candidate_instant [OF that assms(2,3), of y m d hh mi]
      candidate_instant [OF that, of 0 y m d hh mi] by simp
  have offs: "\<forall>off \<in> set (distinctOffsets z). off mod 60 = 0"
    using m by (simp add: distinctOffsets_def)
  have f: "fold (\<lambda>offs acc. classify acc
                   (candidateAt h tzid
                      (floorToMinute (Date_UTC y m d hh mi s - offs * MS_PER_SECOND))
                      (Date_UTC y m d hh mi 0)))
             offsets cs
         = fold (\<lambda>offs acc. classify acc
                   (candidateAt h tzid
                      (floorToMinute (Date_UTC y m d hh mi 0 - offs * MS_PER_SECOND))
                      (Date_UTC y m d hh mi 0)))
             offsets cs"
    if "\<forall>off \<in> set offsets. off mod 60 = 0" for offsets cs
    using that by (induction offsets arbitrary: cs) (simp_all add: c)
  show ?thesis
    unfolding resolveInstant_valid [OF Some] f [OF offs]
    by (simp add: chooseResult_base [OF c [OF m(1)]])
qed

lemma resolveInstant_seconds:
  assumes "\<forall>z. timezones h tzid = Some z \<longrightarrow> sdt z mod 60 = 0 \<and> dst z mod 60 = 0"
    and "0 \<le> a" "a < 60" "0 \<le> b" "b < 60"
  shows "resolveInstant h tzid y m d hh mi a = resolveInstant h tzid y m d hh mi b"
  using resolveInstant_seconds_zero [OF assms(1,2,3)] resolveInstant_seconds_zero [OF assms(1,4,5)]
  by simp

lemma finishParse_seconds:
  assumes "st2 = st1\<lparr> st_second := st_second st2 \<rparr>"
    and "secondsInRange (st_second st1)" "secondsInRange (st_second st2)"
    and "\<forall>z. timezones h (zoneOf st1 tzarg) = Some z \<longrightarrow> sdt z mod 60 = 0 \<and> dst z mod 60 = 0"
  shows "finishParse h st2 tzarg = finishParse h st1 tzarg"
proof -
  define v where "v = st_second st2"
  have st2: "st2 = st1\<lparr> st_second := v \<rparr>" using assms(1) v_def by simp
  have z: "zoneOf st2 tzarg = zoneOf st1 tzarg"
    unfolding st2 by (simp add: zoneOf_def)
  have hr: "hourOf st2 = hourOf st1"
    unfolding st2 by (simp add: hourOf_def split: option.splits)
  have yr: "yearOf st2 = yearOf st1"
    unfolding st2 by (simp add: yearOf_def split: option.splits)
  have f: "st_month st2 = st_month st1" "st_day st2 = st_day st1" "st_minute st2 = st_minute st1"
    unfolding st2 by simp_all
  have r: "0 \<le> (case st_second st of Some v \<Rightarrow> v | None \<Rightarrow> 0)
           \<and> (case st_second st of Some v \<Rightarrow> v | None \<Rightarrow> 0) < 60"
    if "secondsInRange (st_second st)" for st
    using that by (simp add: secondsInRange_def split: option.splits)
  show ?thesis
    unfolding finishParse_def z hr yr f
    using resolveInstant_seconds [OF assms(4), of "case st_second st2 of Some v \<Rightarrow> v | None \<Rightarrow> 0"
        "case st_second st1 of Some v \<Rightarrow> v | None \<Rightarrow> 0"] r [OF assms(2)] r [OF assms(3)]
    by (simp split: sum.splits)
qed

lemma indexOf_range:
  assumes "indexOf s lit c = Some i"
  shows "c \<le> i \<and> i \<le> length s"
proof -
  from assms obtain ia where "ia < length [c ..< Suc (length s)]"
    and "[c ..< Suc (length s)] ! ia = i"
    unfolding indexOf_def find_Some_iff by blast
  then have "i \<in> set [c ..< Suc (length s)]" by (metis nth_mem)
  then show ?thesis by (simp del: upt_Suc)
qed

lemma slice_length: "c + n \<le> length s \<Longrightarrow> length (slice s c n) = n"
  by (simp add: slice_def)

lemma readToken_lockstep:
  assumes r1: "readToken h s1 rest c st1 k = Inr (e1, m1)"
    and r2: "readToken h s2 rest c st2 k = Inr (e2, m2)"
    and rel: "st2 = st1\<lparr> st_second := st_second st2 \<rparr>"
    and c: "c \<le> length s1" "c \<le> length s2"
    and chunks: "k \<noteq> T_ss \<Longrightarrow> slice s2 c (e2 - c) = slice s1 c (e1 - c)"
  shows "e2 = e1 \<and> m2 = m1\<lparr> st_second := st_second m2 \<rparr> \<and> e1 \<le> length s1 \<and> e2 \<le> length s2"
proof -
  define v where "v = st_second st2"
  have st2: "st2 = st1\<lparr> st_second := v \<rparr>" using rel v_def by simp
  show ?thesis
  proof (cases "k = T_tz")
    case True
    show ?thesis
    proof (cases "nextLiteral rest")
      case None
      from r1 r2 None True have e: "e1 = length s1" "e2 = length s2"
        and m: "m1 = st1\<lparr> st_timezone := Some (trim (drop c s1)) \<rparr>"
               "m2 = st2\<lparr> st_timezone := Some (trim (drop c s2)) \<rparr>"
        by (auto simp: readToken_def)
      from chunks True e c have d: "drop c s2 = drop c s1"
        by (simp add: slice_def)
      then have "length s2 - c = length s1 - c" by (metis length_drop)
      with c have "length s2 = length s1" by linarith
      with e m d st2 show ?thesis by simp
    next
      case (Some lit)
      from r1 Some True obtain i1 where i1: "indexOf s1 lit c = Some i1"
        and e1: "e1 = i1" and m1: "m1 = st1\<lparr> st_timezone := Some (trim (slice s1 c (i1 - c))) \<rparr>"
        by (auto simp: readToken_def split: option.splits)
      from r2 Some True obtain i2 where i2: "indexOf s2 lit c = Some i2"
        and e2: "e2 = i2" and m2: "m2 = st2\<lparr> st_timezone := Some (trim (slice s2 c (i2 - c))) \<rparr>"
        by (auto simp: readToken_def split: option.splits)
      note b1 = indexOf_range [OF i1] and b2 = indexOf_range [OF i2]
      from chunks True e1 e2 have sl: "slice s2 c (i2 - c) = slice s1 c (i1 - c)" by simp
      have "length (slice s1 c (i1 - c)) = i1 - c" "length (slice s2 c (i2 - c)) = i2 - c"
        using b1 b2 by (auto simp: slice_def min_def)
      with sl have "i2 - c = i1 - c" by simp
      with b1 b2 have "i2 = i1" by linarith
      with e1 e2 m1 m2 sl st2 b1 b2 show ?thesis by simp
    qed
  next
    case False
    show ?thesis
    proof (cases "k = T_ss")
      case True
      from r1 r2 show ?thesis
        unfolding True st2
        by (auto simp: readToken_def storeNumber_def readNumber_def readFixed_def Let_def
            slice_def split: sum.splits option.splits if_splits prod.splits)
    next
      case ss: False
      have w1: "e1 = c + tokenWidth k" "c + tokenWidth k \<le> length s1"
        using r1 False ss
        by (cases k; auto simp: readToken_def storeNumber_def readNumber_def readFixed_def Let_def
            tokenWidth_def slice_def split: sum.splits option.splits if_splits prod.splits)+
      have w2: "e2 = c + tokenWidth k" "c + tokenWidth k \<le> length s2"
        using r2 False ss
        by (cases k; auto simp: readToken_def storeNumber_def readNumber_def readFixed_def Let_def
            tokenWidth_def slice_def split: sum.splits option.splits if_splits prod.splits)+
      from chunks [OF ss] w1 w2 have sl: "slice s2 c (tokenWidth k) = slice s1 c (tokenWidth k)"
        by simp
      have "m2 = m1\<lparr> st_second := st_second m2 \<rparr>"
        using r1 r2 False ss sl unfolding st2
        by (cases k)
          (auto simp: readToken_def storeNumber_def readNumber_def readFixed_def Let_def
            tokenWidth_def split: sum.splits option.splits if_splits prod.splits)
      with w1 w2 show ?thesis by simp
    qed
  qed
qed

lemma scanChunks_lockstep:
  assumes "scanChunks h s1 segs c st1 = Some cs1"
    and "scanChunks h s2 segs c st2 = Some cs2"
    and "map hideSeconds cs1 = map hideSeconds cs2"
    and "st2 = st1\<lparr> st_second := st_second st2 \<rparr>"
    and "c \<le> length s1" "c \<le> length s2"
  shows "\<exists>e st1' st2'. scanSegments h s1 segs c st1 = Inr (e, st1')
           \<and> scanSegments h s2 segs c st2 = Inr (e, st2')
           \<and> st2' = st1'\<lparr> st_second := st_second st2' \<rparr>"
  using assms
proof (induction segs arbitrary: c st1 st2 cs1 cs2)
  case Nil
  then show ?case by simp
next
  case (Cons seg segs)
  show ?case
  proof (cases seg)
    case (Literal body)
    from Cons.prems(1) Literal obtain t1 where
      b1: "slice s1 c (length body) = body"
      and t1: "scanChunks h s1 segs (c + length body) st1 = Some t1"
      and c1: "cs1 = (Literal body, body) # t1"
      by (auto split: if_splits)
    from Cons.prems(2) Literal obtain t2 where
      b2: "slice s2 c (length body) = body"
      and t2: "scanChunks h s2 segs (c + length body) st2 = Some t2"
      and c2: "cs2 = (Literal body, body) # t2"
      by (auto split: if_splits)
    have l: "c + length body \<le> length s1" "c + length body \<le> length s2"
    proof -
      have "length (slice s1 c (length body)) = length body"
        "length (slice s2 c (length body)) = length body" using b1 b2 by simp_all
      then show "c + length body \<le> length s1" "c + length body \<le> length s2"
        using Cons.prems(5,6) by (auto simp: slice_def min_def split: if_splits)
    qed
    have h: "map hideSeconds t1 = map hideSeconds t2"
      using Cons.prems(3) c1 c2 by simp
    from Cons.IH [OF t1 t2 h Cons.prems(4) l] b1 b2 Literal show ?thesis by simp
  next
    case (Token k)
    from Cons.prems(1) Token obtain e1 m1 t1 where
      r1: "readToken h s1 segs c st1 k = Inr (e1, m1)"
      and t1: "scanChunks h s1 segs e1 m1 = Some t1"
      and c1: "cs1 = (Token k, slice s1 c (e1 - c)) # t1"
      by (auto split: sum.splits)
    from Cons.prems(2) Token obtain e2 m2 t2 where
      r2: "readToken h s2 segs c st2 k = Inr (e2, m2)"
      and t2: "scanChunks h s2 segs e2 m2 = Some t2"
      and c2: "cs2 = (Token k, slice s2 c (e2 - c)) # t2"
      by (auto split: sum.splits)
    have h: "map hideSeconds t1 = map hideSeconds t2"
      using Cons.prems(3) c1 c2 by simp
    have ch: "slice s2 c (e2 - c) = slice s1 c (e1 - c)" if "k \<noteq> T_ss"
      using Cons.prems(3) c1 c2 that by (simp add: hideSeconds_def)
    from readToken_lockstep [OF r1 r2 Cons.prems(4,5,6) ch]
    have e: "e2 = e1" and m: "m2 = m1\<lparr> st_second := st_second m2 \<rparr>"
      and l: "e1 \<le> length s1" "e1 \<le> length s2" by simp_all
    from Cons.IH [OF t1 t2 [unfolded e] h m l] r1 r2 e Token show ?thesis by simp
  qed
qed

lemma candidates_timezone:
  assumes "timezones h tzid = Some z"
    and "chooseResult h tzid baseUtc z
           (fold (\<lambda>offs acc. classify acc (candidateAt h tzid (f offs) targetUtc)) offsets cs)
         = Inr r"
    and "\<forall>x \<in> set (exactMatches cs). timezone (cand_date x) = tzid"
    and "\<forall>x. nextCandidate cs = Some x \<longrightarrow> timezone (cand_date x) = tzid"
    and "\<forall>x. previousCandidate cs = Some x \<longrightarrow> timezone (cand_date x) = tzid"
  shows "timezone r = tzid"
  using assms
proof (induction offsets arbitrary: cs)
  case Nil
  show ?case
  proof (cases "sortDstFirst (exactMatches cs)")
    case (Cons x xs)
    then have "x \<in> set (exactMatches cs)"
      by (metis list.set_intros(1) set_sortDstFirst)
    with Nil Cons show ?thesis by (auto simp: chooseResult_def)
  next
    case empty: Nil
    with Nil show ?thesis
      by (auto simp: chooseResult_def new_DateTz_def ensureTimezone_def split: option.splits)
  qed
next
  case (Cons offs offsets)
  let ?cs = "classify cs (candidateAt h tzid (f offs) targetUtc)"
  have "\<forall>x \<in> set (exactMatches ?cs). timezone (cand_date x) = tzid"
    "\<forall>x. nextCandidate ?cs = Some x \<longrightarrow> timezone (cand_date x) = tzid"
    "\<forall>x. previousCandidate ?cs = Some x \<longrightarrow> timezone (cand_date x) = tzid"
    using Cons.prems(3,4,5)
    by (auto simp: classify_def candidateAt_def split: option.splits if_splits)
  with Cons.IH [of ?cs] Cons.prems(1,2) show ?case by simp
qed

lemma resolveInstant_timezone:
  assumes "resolveInstant h tzid y m d hh mi s = Inr r"
  shows "timezone r = tzid"
proof -
  from assms obtain z where z: "timezones h tzid = Some z"
    by (auto simp: resolveInstant_def ensureTimezone_def split: option.splits)
  from assms [unfolded resolveInstant_valid [OF z]] obtain res where
    res: "chooseResult h tzid (Date_UTC y m d hh mi s) z
            (fold (\<lambda>offs acc. classify acc
                     (candidateAt h tzid
                        (floorToMinute (Date_UTC y m d hh mi s - offs * MS_PER_SECOND))
                        (Date_UTC y m d hh mi 0)))
               (distinctOffsets z) noCandidates) = Inr res"
    and r: "r = res\<lparr> offsetCache := None \<rparr>"
    by (auto split: sum.splits)
  from candidates_timezone [OF z res] r show ?thesis
    by (simp add: noCandidates_def)
qed

text \<open>
  Claim C9, as amended. Two inputs differ only in their seconds digits when the scan loop
  reads the same text from both for every segment of the pattern but the \<open>ss\<close> slots.
  Two such inputs that both parse, with seconds within 0 to 59, give the same result when
  the two catalogue offsets of the resolved zone are whole minutes, for every pattern
  (with or without a \<open>tz\<close> token): the seconds vanish when the constructor truncates the
  candidate instants to the minute.
\<close>

theorem parse_ignores_seconds:
  assumes "differOnlyInSeconds h pattern s1 s2"
    and "parse h s1 pattern tzarg = Inr r1"
    and "parse h s2 pattern tzarg = Inr r2"
    and "secondsInRange (scannedSecond h pattern s1)"
    and "secondsInRange (scannedSecond h pattern s2)"
    and "timezones h (timezone r1) = Some z"
    and "sdt z mod 60 = 0" and "dst z mod 60 = 0"
  shows "r2 = r1"
proof -
  let ?segs = "tokenizePattern (formatOf pattern)"
  obtain c1 st1 where sc1: "scanSegments h s1 ?segs 0 emptyState = Inr (c1, st1)"
    and f1: "finishParse h st1 tzarg = Inr r1"
    using assms(2) by (auto simp: parse_def Let_def split: if_splits sum.splits)
  obtain c2 st2 where sc2: "scanSegments h s2 ?segs 0 emptyState = Inr (c2, st2)"
    and f2: "finishParse h st2 tzarg = Inr r2"
    using assms(3) by (auto simp: parse_def Let_def split: if_splits sum.splits)
  from assms(1) obtain cs1 cs2 where
    ch: "scanChunks h s1 ?segs 0 emptyState = Some cs1"
        "scanChunks h s2 ?segs 0 emptyState = Some cs2"
        "map hideSeconds cs1 = map hideSeconds cs2"
    by (auto simp: differOnlyInSeconds_def split: option.splits)
  have e: "emptyState = emptyState\<lparr> st_second := st_second emptyState \<rparr>" by simp
  from scanChunks_lockstep [OF ch e] sc1 sc2
  have rel: "st2 = st1\<lparr> st_second := st_second st2 \<rparr>" by simp
  have "timezone r1 = zoneOf st1 tzarg"
    using f1 by (auto simp: finishParse_def split: sum.splits dest: resolveInstant_timezone)
  then have offs: "\<forall>z. timezones h (zoneOf st1 tzarg) = Some z
                      \<longrightarrow> sdt z mod 60 = 0 \<and> dst z mod 60 = 0"
    using assms(6,7,8) by simp
  have r1: "secondsInRange (st_second st1)"
    using assms(4) sc1 by (simp add: scannedSecond_def)
  have r2: "secondsInRange (st_second st2)"
    using assms(5) sc2 by (simp add: scannedSecond_def)
  from finishParse_seconds [OF rel r1 r2 offs] f1 f2 show ?thesis by simp
qed


theorem parse_ignores_seconds_witness:
  "differOnlyInSeconds sample_host (Some ''YYYY-MM-DD HH:mm:ss tz'')
     ''2021-07-01 10:30:15 Europe/Rome'' ''2021-07-01 10:30:45 Europe/Rome''
   \<and> secondsInRange (scannedSecond sample_host (Some ''YYYY-MM-DD HH:mm:ss tz'')
         ''2021-07-01 10:30:15 Europe/Rome'')
   \<and> secondsInRange (scannedSecond sample_host (Some ''YYYY-MM-DD HH:mm:ss tz'')
         ''2021-07-01 10:30:45 Europe/Rome'')
   \<and> timezones sample_host ''Europe/Rome'' = Some \<lparr> sdt = 3600, dst = 7200 \<rparr>
   \<and> parse sample_host ''2021-07-01 10:30:15 Europe/Rome'' (Some ''YYYY-MM-DD HH:mm:ss tz'') None
       = Inr \<lparr> timestamp = 1625128200000, timezone = ''Europe/Rome'', offsetCache = None \<rparr>
   \<and> parse sample_host ''2021-07-01 10:30:45 Europe/Rome'' (Some ''YYYY-MM-DD HH:mm:ss tz'') None
       = Inr \<lparr> timestamp = 1625128200000, timezone = ''Europe/Rome'', offsetCache = None \<rparr>"
proof -
  let ?z = "\<lparr> sdt = 3600, dst = 7200 \<rparr>"
  let ?p = "Some ''YYYY-MM-DD HH:mm:ss tz''"
  let ?s1 = "''2021-07-01 10:30:15 Europe/Rome''" and ?s2 = "''2021-07-01 10:30:45 Europe/Rome''"
  let ?st = "emptyState\<lparr> st_year := Some 2021, st_month := Some 7, st_day := Some 1,
               st_hour24 := Some 10, st_minute := Some 30 \<rparr>"
  let ?r = "\<lparr> timestamp = 1625128200000, timezone = ''Europe/Rome'', offsetCache = None \<rparr>"
  have nomer: "\<not> needsMeridiem (tokenizePattern (formatOf ?p))"
    by code_simp
  have diff: "differOnlyInSeconds sample_host ?p ?s1 ?s2"
    by code_simp
  have sc1: "scanSegments sample_host ?s1 (tokenizePattern (formatOf ?p)) 0 emptyState
               = Inr (length ?s1, ?st\<lparr> st_second := Some 15, st_timezone := Some ''Europe/Rome'' \<rparr>)"
    by code_simp
  have sc2: "scanSegments sample_host ?s2 (tokenizePattern (formatOf ?p)) 0 emptyState
               = Inr (length ?s2, ?st\<lparr> st_second := Some 45, st_timezone := Some ''Europe/Rome'' \<rparr>)"
    by code_simp
  have in1: "secondsInRange (scannedSecond sample_host ?p ?s1)"
    unfolding scannedSecond_def sc1 by (simp add: secondsInRange_def)
  have in2: "secondsInRange (scannedSecond sample_host ?p ?s2)"
    unfolding scannedSecond_def sc2 by (simp add: secondsInRange_def)
  have tz: "timezones sample_host ''Europe/Rome'' = Some ?z"
    by (simp add: sample_host_def sample_timezones_def)
  have target: "1625135400000 = Date_UTC 2021 6 1 10 30 0"
    by code_simp
  have yr: "year (utcFields 1625135400000) = 2021"
    by code_simp
  have o2: "offsetAt sample_host ''Europe/Rome'' 1625128200000 = 7200"
    by code_simp
  have n1: "\<not> exactDaylight sample_host ''Europe/Rome'' 1625135400000 3600"
    by code_simp
  have r1: "resolveInstant sample_host ''Europe/Rome'' 2021 6 1 10 30 15 = Inr ?r"
    using resolveInstant_exact [OF tz _ _ _ _ target, of 15 7200] yr o2 n1
    by (simp add: MS_consts)
  have p1: "parse sample_host ?s1 ?p None = Inr ?r"
    unfolding parse_scanned [OF sc1 nomer]
    using r1 by (simp add: finishParse_def hourOf_def zoneOf_def yearOf_def emptyState_def)
  have "\<exists>r2. parse sample_host ?s2 ?p None = Inr r2"
  proof (cases "parse sample_host ?s2 ?p None")
    case (Inl e)
    then have "resolveInstant sample_host ''Europe/Rome'' 2021 6 1 10 30 45 = Inl e"
      unfolding parse_scanned [OF sc2 nomer]
      by (simp add: finishParse_def hourOf_def zoneOf_def yearOf_def emptyState_def)
    then have False
      using resolveInstant_total [OF tz, of 2021 6 1 10 30 45] by simp
    then show ?thesis ..
  next
    case (Inr r2)
    then show ?thesis by blast
  qed
  then obtain r2 where p2': "parse sample_host ?s2 ?p None = Inr r2" ..
  have "r2 = ?r"
    using parse_ignores_seconds [OF diff p1 p2' in1 in2, of ?z] tz by simp
  with p2' have p2: "parse sample_host ?s2 ?p None = Inr ?r"
    by simp
  from diff in1 in2 tz p1 p2 show ?thesis by blast
qed

text \<open>
  Claim C9 as the specification states it fails: two seconds digits can spell 60 to 99,
  which \<open>Date.UTC\<close> carries into the next minutes. In UTC (both offsets zero) the inputs
  \<open>2021-01-01 00:00:59\<close> and \<open>2021-01-01 00:00:60\<close> differ only in their seconds digits,
  both parse, and the results are one minute apart.
\<close>

theorem parse_seconds_sixty:
  "timezones sample_host ''UTC'' = Some \<lparr> sdt = 0, dst = 0 \<rparr>
   \<and> differOnlyInSeconds sample_host None ''2021-01-01 00:00:59'' ''2021-01-01 00:00:60''
   \<and> parse sample_host ''2021-01-01 00:00:59'' None (Some ''UTC'')
       = Inr \<lparr> timestamp = 1609459200000, timezone = ''UTC'', offsetCache = None \<rparr>
   \<and> parse sample_host ''2021-01-01 00:00:60'' None (Some ''UTC'')
       = Inr \<lparr> timestamp = 1609459260000, timezone = ''UTC'', offsetCache = None \<rparr>"
proof -
  let ?z = "\<lparr> sdt = 0, dst = 0 \<rparr>"
  let ?s1 = "''2021-01-01 00:00:59''" and ?s2 = "''2021-01-01 00:00:60''"
  let ?st = "emptyState\<lparr> st_year := Some 2021, st_month := Some 1, st_day := Some 1,
               st_hour24 := Some 0, st_minute := Some 0 \<rparr>"
  have nomer: "\<not> needsMeridiem (tokenizePattern (formatOf None))"
    by code_simp
  have diff: "differOnlyInSeconds sample_host None ?s1 ?s2"
    by code_simp
  have sc1: "scanSegments sample_host ?s1 (tokenizePattern (formatOf None)) 0 emptyState
               = Inr (length ?s1, ?st\<lparr> st_second := Some 59 \<rparr>)"
    by code_simp
  have sc2: "scanSegments sample_host ?s2 (tokenizePattern (formatOf None)) 0 emptyState
               = Inr (length ?s2, ?st\<lparr> st_second := Some 60 \<rparr>)"
    by code_simp
  have tz: "timezones sample_host ''UTC'' = Some ?z"
    by (simp add: sample_host_def sample_timezones_def)
  have fixed: "dst ?z = sdt ?z" by simp
  have f1: "floorToMinute (Date_UTC 2021 0 1 0 0 59) = 1609459200000"
    by code_simp
  have f2: "floorToMinute (Date_UTC 2021 0 1 0 0 60) = 1609459260000"
    by code_simp
  have p1: "parse sample_host ?s1 None (Some ''UTC'')
              = Inr \<lparr> timestamp = 1609459200000, timezone = ''UTC'', offsetCache = None \<rparr>"
    unfolding parse_scanned [OF sc1 nomer]
    using resolveInstant_fixed [OF tz fixed, of 2021 0 1 0 0 59] f1
    by (simp add: finishParse_def hourOf_def zoneOf_def yearOf_def emptyState_def)
  have p2: "parse sample_host ?s2 None (Some ''UTC'')
              = Inr \<lparr> timestamp = 1609459260000, timezone = ''UTC'', offsetCache = None \<rparr>"
    unfolding parse_scanned [OF sc2 nomer]
    using resolveInstant_fixed [OF tz fixed, of 2021 0 1 0 0 60] f2
    by (simp add: finishParse_def hourOf_def zoneOf_def yearOf_def emptyState_def)
  from tz diff p1 p2 show ?thesis by blast
qed

subsection \<open>Reading back a rendered text\<close>

lemma render_simps:
  "render tk (Literal body) = body" "render tk (Token k) = tk k"
  by (simp_all add: render_def)

lemma storeRendered_simps:
  "storeRendered h tk (Literal body) st = st"
  "storeRendered h tk (Token k) st = storeChunk h k (tk k) st"
  by (simp_all add: storeRendered_def)

lemma slice_middle: "slice (pre @ x @ post) (length pre) (length x) = x"
  by (simp add: slice_def)

lemma readToken_chunk:
  assumes "k \<noteq> T_tz" "k \<noteq> T_LM" "length chunk = tokenWidth k"
    and "slice text c (tokenWidth k) = chunk"
    and "readToken h chunk [] 0 st k = Inr (n, st')"
  shows "readToken h text rest c st k = Inr (c + tokenWidth k, st')"
  using assms
  by (cases k)
    (auto simp: readToken_def storeNumber_def readNumber_def readFixed_def Let_def
      tokenWidth_def slice_def split: sum.splits option.splits if_splits prod.splits)


lemma tokenize_render:
  "concat (map (render tk) (tokenizeFrom pending s)) = pending @ replaceTokens (render tk) s"
proof (induction pending s rule: tokenizeFrom.induct)
  case (1 pending)
  then show ?case by (simp add: flush_def render_simps)
next
  case (2 pending c cs)
  show ?case
  proof (cases "match_at (c # cs)")
    case None
    then show ?thesis using 2 by simp
  next
    case (Some a)
    obtain seg n where a: "a = (seg, n)" by (cases a)
    show ?thesis
      using 2 Some a
      by (simp add: flush_def render_simps)
  qed
qed

lemma replaceTokens_rendered:
  "replaceTokens (render tk) p = concat (map (render tk) (tokenizePattern p))"
  by (simp add: tokenizePattern_def tokenize_render)

subsection \<open>Ranges of the calendar fields\<close>

lemma MonthFromDay_day:
  assumes "0 \<le> n" "n < 365 + leapDays y"
  shows "\<exists>k. daysInMonth y (MonthFromDay y n) = Some k
             \<and> monthStart y (MonthFromDay y n) \<le> n
             \<and> n < monthStart y (MonthFromDay y n) + k"
  using leapDays_range [of y] assms
  by (elim disjE) (simp_all add: MonthFromDay_def monthStart_values daysInMonth_values)

lemma utcFields_ranges:
  "0 \<le> month (utcFields t) \<and> month (utcFields t) \<le> 11
   \<and> 1 \<le> day (utcFields t)
   \<and> (\<exists>k. daysInMonth (year (utcFields t)) (month (utcFields t)) = Some k
            \<and> day (utcFields t) \<le> k)
   \<and> 0 \<le> hour (utcFields t) \<and> hour (utcFields t) < 24
   \<and> 0 \<le> minute (utcFields t) \<and> minute (utcFields t) < 60
   \<and> 0 \<le> second (utcFields t) \<and> second (utcFields t) < 60"
proof -
  define y where "y = YearFromDay (Day t)"
  define n where "n = Day t - DayFromYear y"
  define m where "m = MonthFromDay y n"
  have f: "year (utcFields t) = y" "month (utcFields t) = m"
    "day (utcFields t) = n - monthStart y m + 1"
    "hour (utcFields t) = (t div 3600000) mod 24"
    "minute (utcFields t) = (t div 60000) mod 60"
    "second (utcFields t) = (t div 1000) mod 60"
    by (simp_all add: utcFields_def Let_def y_def n_def m_def MS_consts)
  have n: "0 \<le> n" "n < 365 + leapDays y"
    using YearFromDay_bracket [of "Day t"] DayFromYear_step [of y]
    by (simp_all add: n_def y_def)
  from MonthFromDay_day [OF n] obtain k where
    k: "daysInMonth y m = Some k" "monthStart y m \<le> n" "n < monthStart y m + k"
    unfolding m_def by blast
  have m: "0 \<le> m \<and> m \<le> 11" unfolding m_def by (rule MonthFromDay_range)
  show ?thesis
    unfolding f using m k by simp
qed

subsection \<open>The text of \<open>setFromLocalParts\<close> read back\<close>

lemma digits_length: "length (two_digits n) = 2" "length (four_digits n) = 4"
  by (simp_all add: two_digits_def four_digits_def)

lemma readFixed_whole: "length chunk = n \<Longrightarrow> readFixed chunk 0 n = Inr (chunk, n)"
  by (simp add: readFixed_def slice_def)

lemma readNumber_digits:
  "n < 100 \<Longrightarrow> readNumber h (two_digits n) 0 2 = Inr (int n, 2)"
  "n < 10000 \<Longrightarrow> readNumber h (four_digits n) 0 4 = Inr (int n, 4)"
  by (simp_all add: readNumber_def readFixed_whole digits_length Number_two_digits
        Number_four_digits)

lemma storeChunk_digits:
  "n < 10000 \<Longrightarrow> readToken h (four_digits n) [] 0 st T_YYYY = Inr (4, st\<lparr> st_year := Some (int n) \<rparr>)"
  "n < 10000 \<Longrightarrow> readToken h (four_digits n) [] 0 st T_yyyy = Inr (4, st\<lparr> st_year := Some (int n) \<rparr>)"
  "n < 100 \<Longrightarrow> readToken h (two_digits n) [] 0 st T_YY = Inr (2, st\<lparr> st_yearTwoDigit := Some (int n) \<rparr>)"
  "n < 100 \<Longrightarrow> readToken h (two_digits n) [] 0 st T_yy = Inr (2, st\<lparr> st_yearTwoDigit := Some (int n) \<rparr>)"
  "n < 100 \<Longrightarrow> readToken h (two_digits n) [] 0 st T_MM = Inr (2, st\<lparr> st_month := Some (int n) \<rparr>)"
  "n < 100 \<Longrightarrow> readToken h (two_digits n) [] 0 st T_DD = Inr (2, st\<lparr> st_day := Some (int n) \<rparr>)"
  "n < 100 \<Longrightarrow> readToken h (two_digits n) [] 0 st T_HH = Inr (2, st\<lparr> st_hour24 := Some (int n) \<rparr>)"
  "n < 100 \<Longrightarrow> readToken h (two_digits n) [] 0 st T_hh = Inr (2, st\<lparr> st_hour12 := Some (int n) \<rparr>)"
  "n < 100 \<Longrightarrow> readToken h (two_digits n) [] 0 st T_mm = Inr (2, st\<lparr> st_minute := Some (int n) \<rparr>)"
  "n < 100 \<Longrightarrow> readToken h (two_digits n) [] 0 st T_ss = Inr (2, st\<lparr> st_second := Some (int n) \<rparr>)"
  by (simp_all add: readToken_def storeNumber_def readNumber_digits)

lemma defaultFormat_segments:
  "tokenizePattern ''YYYY-MM-DD HH:mm:ss''
     = [Token T_YYYY, Literal ''-'', Token T_MM, Literal ''-'', Token T_DD, Literal '' '',
        Token T_HH, Literal '':'', Token T_mm, Literal '':'', Token T_ss]"
  by code_simp


subsection \<open>Writing local fields back\<close>

lemma digit_chars:
  "digit_char 0 = CHR ''0''" "digit_char 1 = CHR ''1''" "digit_char 2 = CHR ''2''"
  "digit_char 3 = CHR ''3''" "digit_char 4 = CHR ''4''" "digit_char 5 = CHR ''5''"
  "digit_char 6 = CHR ''6''" "digit_char 7 = CHR ''7''" "digit_char 8 = CHR ''8''"
  "digit_char 9 = CHR ''9''" "digit_char (Suc 0) = CHR ''1''"
  unfolding digit_char_def by code_simp+

lemma daysInMonth_range:
  assumes "daysInMonth y m = Some k"
  shows "0 \<le> m \<and> m \<le> 11 \<and> 28 \<le> k \<and> k \<le> 31"
proof -
  have m: "0 \<le> m" "m \<le> 11"
    using assms by (auto simp: daysInMonth_def split: if_splits)
  from month_cases [OF m] assms leapDays_range [of y] show ?thesis
    by (elim disjE) (simp_all add: daysInMonth_values)
qed


lemma getLocalParts_localFields:
  assumes "timezones h (timezone d) = Some z"
    and "cacheHit d = None \<or> cacheHit d = Some (infoAt h (timezone d) (timestamp d))"
  shows "getLocalParts h True d
           = (Inr (localFields h d), withCache d (infoAt h (timezone d) (timestamp d)))"
  using getLocalParts_eq [OF computeOffsetInfo_infoAt [OF assms(1)] assms(2)]
  by (simp add: localFields_def offsetAt_def)





subsection \<open>Printing and reading back\<close>

lemma find_upt_Some:
  "List.find P [c ..< n] = Some i
     \<longleftrightarrow> c \<le> i \<and> i < n \<and> P i \<and> (\<forall>j. c \<le> j \<and> j < i \<longrightarrow> \<not> P j)"
proof
  assume "List.find P [c ..< n] = Some i"
  then obtain k where k: "k < length [c ..< n]" "P ([c ..< n] ! k)" "i = [c ..< n] ! k"
    "\<forall>j<k. \<not> P ([c ..< n] ! j)"
    unfolding find_Some_iff by blast
  from k(1) have kn: "c + k < n" by simp
  have i: "i = c + k" using k(3) kn by simp
  have "\<not> P j" if "c \<le> j" "j < i" for j
  proof -
    have "j - c < k" using that i by simp
    with k(4) have "\<not> P ([c ..< n] ! (j - c))" by blast
    moreover have "[c ..< n] ! (j - c) = j" using that i kn by simp
    ultimately show ?thesis by simp
  qed
  with k(2) i kn show "c \<le> i \<and> i < n \<and> P i \<and> (\<forall>j. c \<le> j \<and> j < i \<longrightarrow> \<not> P j)"
    by simp
next
  assume r: "c \<le> i \<and> i < n \<and> P i \<and> (\<forall>j. c \<le> j \<and> j < i \<longrightarrow> \<not> P j)"
  then have ci: "c \<le> i" and inn: "i < n" and pi: "P i"
    and before: "\<And>j. c \<le> j \<Longrightarrow> j < i \<Longrightarrow> \<not> P j"
    by simp_all
  have 1: "i - c < length [c ..< n]" using ci inn by simp
  have 2: "[c ..< n] ! (i - c) = i" using ci inn by simp
  have 3: "\<not> P ([c ..< n] ! j)" if "j < i - c" for j
  proof -
    have "c + j < i" using that by linarith
    moreover from this inn have "[c ..< n] ! j = c + j" by simp
    ultimately show ?thesis using before [of "c + j"] by simp
  qed
  show "List.find P [c ..< n] = Some i"
    unfolding find_Some_iff using 1 2 3 pi by metis
qed

lemma indexOf_first:
  assumes "indexOf (tzid @ lit) lit 0 = Some (length tzid)"
  shows "indexOf (pre @ tzid @ lit @ post) lit (length pre) = Some (length pre + length tzid)"
proof -
  let ?whole = "pre @ tzid @ lit @ post"
  from assms have minimal: "slice (tzid @ lit) j (length lit) \<noteq> lit" if "j < length tzid" for j
    unfolding indexOf_def find_upt_Some using that by blast
  have here: "slice ?whole (length pre + length tzid) (length lit) = lit"
    by (simp add: slice_def)
  have earlier: "slice ?whole j (length lit) \<noteq> lit"
    if "length pre \<le> j" "j < length pre + length tzid" for j
  proof -
    have "slice ?whole j (length lit) = slice (tzid @ lit) (j - length pre) (length lit)"
      using that by (simp add: slice_def)
    with minimal [of "j - length pre"] that show ?thesis by simp
  qed
  show ?thesis
    unfolding indexOf_def find_upt_Some
    using here earlier by simp
qed

lemma storeChunk_tz:
  "storeChunk h T_tz chunk st = st\<lparr> st_timezone := Some (trim chunk) \<rparr>"
  by (simp add: storeChunk_def readToken_def)

lemma scan_rendered_zone:
  assumes "\<And>k st. Token k \<in> set segs \<Longrightarrow>
             k \<noteq> T_LM \<and> (k \<noteq> T_tz \<longrightarrow> length (tk k) = tokenWidth k
             \<and> (\<exists>n st'. readToken h (tk k) [] 0 st k = Inr (n, st')))"
    and "tzPlaced (tk T_tz) segs"
  shows "scanSegments h (pre @ concat (map (render tk) segs)) segs (length pre) st
           = Inr (length pre + length (concat (map (render tk) segs)),
                  fold (storeRendered h tk) segs st)"
  using assms
proof (induction segs arbitrary: pre st)
  case Nil
  then show ?case by simp
next
  case (Cons seg segs)
  let ?rest = "concat (map (render tk) segs)"
  have placed: "tzPlaced (tk T_tz) segs"
    using Cons.prems(2) by (cases seg) simp_all
  have IH: "scanSegments h ((pre @ x) @ ?rest) segs (length (pre @ x)) st'
              = Inr (length (pre @ x) + length ?rest, fold (storeRendered h tk) segs st')"
    for x st'
    by (rule Cons.IH) (use Cons.prems(1) placed in auto)
  show ?case
  proof (cases seg)
    case (Literal body)
    have s: "slice (pre @ body @ ?rest @ []) (length pre) (length body) = body"
      by (rule slice_middle)
    show ?thesis
      using IH [of body st] s Literal
      by (simp add: render_simps storeRendered_simps)
  next
    case (Token k)
    show ?thesis
    proof (cases "k = T_tz")
      case False
      from Cons.prems(1) [of k st] Token False obtain n st' where
        k: "k \<noteq> T_tz" "k \<noteq> T_LM" "length (tk k) = tokenWidth k"
        and r: "readToken h (tk k) [] 0 st k = Inr (n, st')"
        by auto
      have s: "slice (pre @ tk k @ ?rest) (length pre) (tokenWidth k) = tk k"
        using slice_middle [of pre "tk k" "?rest"] k(3) by simp
      have rd: "readToken h (pre @ tk k @ ?rest) segs (length pre) st k
                  = Inr (length pre + tokenWidth k, st')"
        by (rule readToken_chunk [OF k s r])
      have st': "storeChunk h k (tk k) st = st'"
        using r by (simp add: storeChunk_def)
      show ?thesis
        using IH [of "tk k" st'] rd Token k(3) st'
        by (simp add: render_simps storeRendered_simps)
    next
      case True
      let ?z = "tk T_tz"
      have rd: "readToken h (pre @ ?z @ ?rest) segs (length pre) st T_tz
                  = Inr (length pre + length ?z, st\<lparr> st_timezone := Some (trim ?z) \<rparr>)"
      proof (cases segs)
        case Nil
        then show ?thesis by (simp add: readToken_def)
      next
        case (Cons seg' segs')
        with Cons.prems(2) Token True obtain lit where
          lit: "seg' = Literal lit" "lit \<noteq> []"
          and first: "indexOf (?z @ lit) lit 0 = Some (length ?z)"
          by (cases seg') auto
        let ?more = "concat (map (render tk) segs')"
        have whole: "pre @ ?z @ ?rest = pre @ ?z @ lit @ ?more"
          using Cons lit by (simp add: render_simps)
        have sl: "slice (pre @ ?z @ lit @ ?more) (length pre) (length ?z) = ?z"
          using slice_middle [of pre ?z "lit @ ?more"] by simp
        show ?thesis
          unfolding whole
          using indexOf_first [OF first, of pre ?more] Cons lit sl
          by (simp add: readToken_def)
      qed
      show ?thesis
        using IH [of ?z "st\<lparr> st_timezone := Some (trim ?z) \<rparr>"] rd Token True
        by (simp add: render_simps storeRendered_simps storeChunk_tz)
    qed
  qed
qed

lemma contains_drop:
  "containsFormattingToken (drop j s) \<Longrightarrow> containsFormattingToken s"
proof (induction s arbitrary: j)
  case Nil
  then show ?case by simp
next
  case (Cons c cs)
  show ?case
  proof (cases j)
    case 0
    with Cons.prems show ?thesis by simp
  next
    case (Suc i)
    with Cons.prems have "containsFormattingToken (drop i cs)" by simp
    from Cons.IH [OF this] show ?thesis by simp
  qed
qed

lemma tokenize_contains:
  "Token k \<in> set (tokenizeFrom pending s) \<Longrightarrow> containsFormattingToken s"
proof (induction pending s rule: tokenizeFrom.induct)
  case (1 pending)
  then show ?case by (simp add: flush_def split: if_splits)
next
  case (2 pending c cs)
  show ?case
  proof (cases "match_at (c # cs)")
    case None
    with 2 show ?thesis by simp
  next
    case (Some a)
    obtain seg n where a: "a = (seg, n)" by (cases a)
    show ?thesis
    proof (cases "token_at (c # cs)")
      case tok: (Some b)
      then show ?thesis by simp
    next
      case None
      with Some a have "\<exists>body. seg = Literal body"
        by (auto simp: match_at_def split: option.splits)
      with 2(3) Some a have "Token k \<in> set (tokenizeFrom [] (drop (n - 1) cs))"
        by (auto simp: flush_def split: if_splits)
      from 2(2) [OF Some [unfolded a] refl this] have "containsFormattingToken (drop (n - 1) cs)" .
      from contains_drop [OF this] show ?thesis by simp
    qed
  qed
qed

lemma case_words:
  "toLowerCase ''PM'' = ''pm''" "toLowerCase ''AM'' = ''am''"
  "toUpperCase ''pm'' = ''PM''" "toUpperCase ''am'' = ''AM''"
  "toUpperCase ''PM'' = ''PM''" "toUpperCase ''AM'' = ''AM''"
  by code_simp+

lemma last_two_digits:
  "slice_last 2 (four_digits n) = two_digits (n mod 100)"
proof -
  have e: "n mod 100 = 10 * (n div 10 mod 10) + n mod 10"
    using mod_mult2_eq [of n 10 10] by simp
  have "n mod 100 div 10 = n div 10 mod 10"
    unfolding e by simp
  moreover have "n mod 100 mod 10 = n mod 10"
    unfolding e by simp
  ultimately show ?thesis
    by (simp add: slice_last_def four_digits_def two_digits_def)
qed

lemma tokens_of_values:
  assumes "1000 \<le> year parts" "year parts \<le> 9999" "0 \<le> month parts" "month parts \<le> 11"
    and "1 \<le> day parts" "day parts \<le> 31" "0 \<le> hour parts" "hour parts < 24"
    and "0 \<le> minute parts" "minute parts < 60" "0 \<le> second parts" "second parts < 60"
  shows "tokens_of h loc tzid parts T_YYYY = four_digits (nat (year parts))"
    "tokens_of h loc tzid parts T_yyyy = four_digits (nat (year parts))"
    "tokens_of h loc tzid parts T_YY = two_digits (nat (year parts) mod 100)"
    "tokens_of h loc tzid parts T_yy = two_digits (nat (year parts) mod 100)"
    "tokens_of h loc tzid parts T_MM = two_digits (nat (month parts + 1))"
    "tokens_of h loc tzid parts T_DD = two_digits (nat (day parts))"
    "tokens_of h loc tzid parts T_HH = two_digits (nat (hour parts))"
    "tokens_of h loc tzid parts T_hh
       = two_digits (nat (if hour parts mod 12 = 0 then 12 else hour parts mod 12))"
    "tokens_of h loc tzid parts T_mm = two_digits (nat (minute parts))"
    "tokens_of h loc tzid parts T_ss = two_digits (nat (second parts))"
    "tokens_of h loc tzid parts T_aa = (if 12 \<le> hour parts then ''pm'' else ''am'')"
    "tokens_of h loc tzid parts T_AA = (if 12 \<le> hour parts then ''PM'' else ''AM'')"
    "tokens_of h loc tzid parts T_tz = tzid"
proof -
  have full: "String_of (year parts) = four_digits (nat (year parts))"
    using assms(1,2) by (simp add: String_of_def string_of_nat_4 four_digits_def)
  have h12: "0 \<le> (if hour parts mod 12 = 0 then 12 else hour parts mod 12)"
    "(if hour parts mod 12 = 0 then 12 else hour parts mod 12) < 100"
    by (simp_all add: pos_mod_sign) (smt (verit) pos_mod_bound)
  show "tokens_of h loc tzid parts T_YYYY = four_digits (nat (year parts))"
    "tokens_of h loc tzid parts T_yyyy = four_digits (nat (year parts))"
    by (simp_all add: tokens_of_def Let_def full)
  show "tokens_of h loc tzid parts T_YY = two_digits (nat (year parts) mod 100)"
    "tokens_of h loc tzid parts T_yy = two_digits (nat (year parts) mod 100)"
    by (simp_all add: tokens_of_def Let_def full last_two_digits)
  show "tokens_of h loc tzid parts T_MM = two_digits (nat (month parts + 1))"
    "tokens_of h loc tzid parts T_DD = two_digits (nat (day parts))"
    "tokens_of h loc tzid parts T_HH = two_digits (nat (hour parts))"
    "tokens_of h loc tzid parts T_mm = two_digits (nat (minute parts))"
    "tokens_of h loc tzid parts T_ss = two_digits (nat (second parts))"
    using assms by (simp_all add: tokens_of_def Let_def pad_2)
  show "tokens_of h loc tzid parts T_hh
       = two_digits (nat (if hour parts mod 12 = 0 then 12 else hour parts mod 12))"
    using pad_2 [OF h12] by (simp add: tokens_of_def Let_def)
  show "tokens_of h loc tzid parts T_aa = (if 12 \<le> hour parts then ''pm'' else ''am'')"
    "tokens_of h loc tzid parts T_AA = (if 12 \<le> hour parts then ''PM'' else ''AM'')"
    "tokens_of h loc tzid parts T_tz = tzid"
    by (simp_all add: tokens_of_def Let_def case_words)
qed

lemma storeChunk_words:
  "length w = 2 \<Longrightarrow> storeChunk h T_aa w st = st\<lparr> st_ampm := Some w \<rparr>"
  "length w = 2 \<Longrightarrow> storeChunk h T_AA w st = st\<lparr> st_ampm := Some w \<rparr>"
  "length w = 2 \<Longrightarrow> readToken h w [] 0 st T_aa = Inr (2, st\<lparr> st_ampm := Some w \<rparr>)"
  "length w = 2 \<Longrightarrow> readToken h w [] 0 st T_AA = Inr (2, st\<lparr> st_ampm := Some w \<rparr>)"
  by (simp_all add: storeChunk_def readToken_def readFixed_whole)


lemma store_tokens:
  assumes "1000 \<le> year parts" "year parts \<le> 9999" "0 \<le> month parts" "month parts \<le> 11"
    and "1 \<le> day parts" "day parts \<le> 31" "0 \<le> hour parts" "hour parts < 24"
    and "0 \<le> minute parts" "minute parts < 60" "0 \<le> second parts" "second parts < 60"
  shows "storeChunk h T_YYYY (tokens_of h loc tzid parts T_YYYY) st
           = st\<lparr> st_year := Some (year parts) \<rparr>"
    "storeChunk h T_yyyy (tokens_of h loc tzid parts T_yyyy) st
           = st\<lparr> st_year := Some (year parts) \<rparr>"
    "storeChunk h T_YY (tokens_of h loc tzid parts T_YY) st
           = st\<lparr> st_yearTwoDigit := Some (int (nat (year parts) mod 100)) \<rparr>"
    "storeChunk h T_yy (tokens_of h loc tzid parts T_yy) st
           = st\<lparr> st_yearTwoDigit := Some (int (nat (year parts) mod 100)) \<rparr>"
    "storeChunk h T_MM (tokens_of h loc tzid parts T_MM) st
           = st\<lparr> st_month := Some (month parts + 1) \<rparr>"
    "storeChunk h T_DD (tokens_of h loc tzid parts T_DD) st
           = st\<lparr> st_day := Some (day parts) \<rparr>"
    "storeChunk h T_HH (tokens_of h loc tzid parts T_HH) st
           = st\<lparr> st_hour24 := Some (hour parts) \<rparr>"
    "storeChunk h T_hh (tokens_of h loc tzid parts T_hh) st
           = st\<lparr> st_hour12 := Some (if hour parts mod 12 = 0 then 12 else hour parts mod 12) \<rparr>"
    "storeChunk h T_mm (tokens_of h loc tzid parts T_mm) st
           = st\<lparr> st_minute := Some (minute parts) \<rparr>"
    "storeChunk h T_ss (tokens_of h loc tzid parts T_ss) st
           = st\<lparr> st_second := Some (second parts) \<rparr>"
    "storeChunk h T_aa (tokens_of h loc tzid parts T_aa) st
           = st\<lparr> st_ampm := Some (if 12 \<le> hour parts then ''pm'' else ''am'') \<rparr>"
    "storeChunk h T_AA (tokens_of h loc tzid parts T_AA) st
           = st\<lparr> st_ampm := Some (if 12 \<le> hour parts then ''PM'' else ''AM'') \<rparr>"
    "storeChunk h T_tz (tokens_of h loc tzid parts T_tz) st
           = st\<lparr> st_timezone := Some (trim tzid) \<rparr>"
proof -
  note v = tokens_of_values [OF assms, of h loc tzid]
  have h12: "0 \<le> hour parts mod 12" "hour parts mod 12 < 100"
    by simp_all
  show "storeChunk h T_YYYY (tokens_of h loc tzid parts T_YYYY) st
           = st\<lparr> st_year := Some (year parts) \<rparr>"
    "storeChunk h T_yyyy (tokens_of h loc tzid parts T_yyyy) st
           = st\<lparr> st_year := Some (year parts) \<rparr>"
    using assms(1,2) by (simp_all add: v storeChunk_def storeChunk_digits)
  show "storeChunk h T_YY (tokens_of h loc tzid parts T_YY) st
           = st\<lparr> st_yearTwoDigit := Some (int (nat (year parts) mod 100)) \<rparr>"
    "storeChunk h T_yy (tokens_of h loc tzid parts T_yy) st
           = st\<lparr> st_yearTwoDigit := Some (int (nat (year parts) mod 100)) \<rparr>"
    by (simp_all add: v storeChunk_def storeChunk_digits)
  show "storeChunk h T_MM (tokens_of h loc tzid parts T_MM) st
           = st\<lparr> st_month := Some (month parts + 1) \<rparr>"
    "storeChunk h T_DD (tokens_of h loc tzid parts T_DD) st
           = st\<lparr> st_day := Some (day parts) \<rparr>"
    "storeChunk h T_HH (tokens_of h loc tzid parts T_HH) st
           = st\<lparr> st_hour24 := Some (hour parts) \<rparr>"
    "storeChunk h T_mm (tokens_of h loc tzid parts T_mm) st
           = st\<lparr> st_minute := Some (minute parts) \<rparr>"
    "storeChunk h T_ss (tokens_of h loc tzid parts T_ss) st
           = st\<lparr> st_second := Some (second parts) \<rparr>"
    using assms by (simp_all add: v storeChunk_def storeChunk_digits)
  show "storeChunk h T_hh (tokens_of h loc tzid parts T_hh) st
           = st\<lparr> st_hour12 := Some (if hour parts mod 12 = 0 then 12 else hour parts mod 12) \<rparr>"
    using h12 by (simp add: v storeChunk_def storeChunk_digits)
  show "storeChunk h T_aa (tokens_of h loc tzid parts T_aa) st
           = st\<lparr> st_ampm := Some (if 12 \<le> hour parts then ''pm'' else ''am'') \<rparr>"
    "storeChunk h T_AA (tokens_of h loc tzid parts T_AA) st
           = st\<lparr> st_ampm := Some (if 12 \<le> hour parts then ''PM'' else ''AM'') \<rparr>"
    by (simp_all add: v storeChunk_words)
  show "storeChunk h T_tz (tokens_of h loc tzid parts T_tz) st
           = st\<lparr> st_timezone := Some (trim tzid) \<rparr>"
    by (simp add: v storeChunk_tz)
qed

lemma fold_field:
  assumes "\<And>k st. k \<noteq> T_LM \<Longrightarrow>
             g (storeChunk h k (tk k) st) = (if k \<in> K then Some v else g st)"
    and "Token T_LM \<notin> set segs"
  shows "g (fold (storeRendered h tk) segs st)
           = (if \<exists>k\<in>K. Token k \<in> set segs then Some v else g st)"
  using assms(2)
proof (induction segs arbitrary: st)
  case Nil
  then show ?case by simp
next
  case (Cons seg segs)
  from Cons.prems have lm: "Token T_LM \<notin> set segs" by simp
  show ?case
  proof (cases seg)
    case (Literal body)
    then show ?thesis using Cons.IH [OF lm, of st] by (simp add: storeRendered_simps)
  next
    case (Token k)
    with Cons.prems have k: "k \<noteq> T_LM" by auto
    show ?thesis
      using Cons.IH [OF lm, of "storeChunk h k (tk k) st"] assms(1) [OF k, of st] Token
      by (auto simp: storeRendered_simps)
  qed
qed

lemma fold_tokens:
  fixes h :: host and loc tzid :: string and st :: ParseState and parts :: LocalDateTime
    and segs :: "PatternSegment list"
  assumes "1000 \<le> year parts" "year parts \<le> 9999" "0 \<le> month parts" "month parts \<le> 11"
    and "1 \<le> day parts" "day parts \<le> 31" "0 \<le> hour parts" "hour parts < 24"
    and "0 \<le> minute parts" "minute parts < 60" "0 \<le> second parts" "second parts < 60"
    and "Token T_LM \<notin> set segs"
  defines "st' \<equiv> fold (storeRendered h (tokens_of h loc tzid parts)) segs st"
  shows "st_year st' = (if \<exists>k\<in>{T_YYYY, T_yyyy}. Token k \<in> set segs then Some (year parts)
                        else st_year st)"
    and "st_month st' = (if \<exists>k\<in>{T_MM}. Token k \<in> set segs then Some (month parts + 1)
                         else st_month st)"
    and "st_day st' = (if \<exists>k\<in>{T_DD}. Token k \<in> set segs then Some (day parts) else st_day st)"
    and "st_hour24 st' = (if \<exists>k\<in>{T_HH}. Token k \<in> set segs then Some (hour parts)
                          else st_hour24 st)"
    and "st_hour12 st' = (if \<exists>k\<in>{T_hh}. Token k \<in> set segs
                          then Some (if hour parts mod 12 = 0 then 12 else hour parts mod 12)
                          else st_hour12 st)"
    and "st_minute st' = (if \<exists>k\<in>{T_mm}. Token k \<in> set segs then Some (minute parts)
                          else st_minute st)"
    and "st_second st' = (if \<exists>k\<in>{T_ss}. Token k \<in> set segs then Some (second parts)
                          else st_second st)"
    and "map_option toUpperCase (st_ampm st')
           = (if \<exists>k\<in>{T_aa, T_AA}. Token k \<in> set segs
              then Some (if 12 \<le> hour parts then ''PM'' else ''AM'')
              else map_option toUpperCase (st_ampm st))"
    and "map_option (\<lambda>w. w = []) (st_ampm st')
           = (if \<exists>k\<in>{T_aa, T_AA}. Token k \<in> set segs then Some False
              else map_option (\<lambda>w. w = []) (st_ampm st))"
    and "st_timezone st' = (if \<exists>k\<in>{T_tz}. Token k \<in> set segs then Some (trim tzid)
                            else st_timezone st)"
proof -
  note s = store_tokens [OF assms(1-12), of h loc tzid]
  let ?tk = "tokens_of h loc tzid parts"
  show "st_year st' = (if \<exists>k\<in>{T_YYYY, T_yyyy}. Token k \<in> set segs then Some (year parts)
                        else st_year st)"
    unfolding st'_def
    by (rule fold_field [OF _ assms(13)]) (case_tac k; simp add: s)
  show "st_month st' = (if \<exists>k\<in>{T_MM}. Token k \<in> set segs then Some (month parts + 1)
                         else st_month st)"
    unfolding st'_def
    by (rule fold_field [OF _ assms(13)]) (case_tac k; simp add: s)
  show "st_day st' = (if \<exists>k\<in>{T_DD}. Token k \<in> set segs then Some (day parts) else st_day st)"
    unfolding st'_def
    by (rule fold_field [OF _ assms(13)]) (case_tac k; simp add: s)
  show "st_hour24 st' = (if \<exists>k\<in>{T_HH}. Token k \<in> set segs then Some (hour parts)
                          else st_hour24 st)"
    unfolding st'_def
    by (rule fold_field [OF _ assms(13)]) (case_tac k; simp add: s)
  show "st_hour12 st' = (if \<exists>k\<in>{T_hh}. Token k \<in> set segs
                          then Some (if hour parts mod 12 = 0 then 12 else hour parts mod 12)
                          else st_hour12 st)"
    unfolding st'_def
    by (rule fold_field [OF _ assms(13)]) (case_tac k; simp add: s)
  show "st_minute st' = (if \<exists>k\<in>{T_mm}. Token k \<in> set segs then Some (minute parts)
                          else st_minute st)"
    unfolding st'_def
    by (rule fold_field [OF _ assms(13)]) (case_tac k; simp add: s)
  show "st_second st' = (if \<exists>k\<in>{T_ss}. Token k \<in> set segs then Some (second parts)
                          else st_second st)"
    unfolding st'_def
    by (rule fold_field [OF _ assms(13)]) (case_tac k; simp add: s)
  show "map_option toUpperCase (st_ampm st')
           = (if \<exists>k\<in>{T_aa, T_AA}. Token k \<in> set segs
              then Some (if 12 \<le> hour parts then ''PM'' else ''AM'')
              else map_option toUpperCase (st_ampm st))"
    unfolding st'_def
    by (rule fold_field [OF _ assms(13)]) (case_tac k; simp add: s case_words)
  show "map_option (\<lambda>w. w = []) (st_ampm st')
           = (if \<exists>k\<in>{T_aa, T_AA}. Token k \<in> set segs then Some False
              else map_option (\<lambda>w. w = []) (st_ampm st))"
    unfolding st'_def
    by (rule fold_field [OF _ assms(13)]) (case_tac k; simp add: s)
  show "st_timezone st' = (if \<exists>k\<in>{T_tz}. Token k \<in> set segs then Some (trim tzid)
                            else st_timezone st)"
    unfolding st'_def
    by (rule fold_field [OF _ assms(13)]) (case_tac k; simp add: s)
qed


lemma tokens_readable:
  assumes "1000 \<le> year parts" "year parts \<le> 9999" "0 \<le> month parts" "month parts \<le> 11"
    and "1 \<le> day parts" "day parts \<le> 31" "0 \<le> hour parts" "hour parts < 24"
    and "0 \<le> minute parts" "minute parts < 60" "0 \<le> second parts" "second parts < 60"
    and "k \<noteq> T_LM" "k \<noteq> T_tz"
  shows "length (tokens_of h loc tzid parts k) = tokenWidth k
         \<and> (\<exists>n st'. readToken h (tokens_of h loc tzid parts k) [] 0 st k = Inr (n, st'))"
proof -
  note v = tokens_of_values [OF assms(1-12), of h loc tzid]
  have "hour parts mod 12 < 12" by simp
  then have h12: "nat (hour parts mod 12) < 100" by linarith
  show ?thesis
    using assms h12
    by (cases k)
      (simp_all add: v tokenWidth_def digits_length storeChunk_digits storeChunk_words)
qed

lemma hour12_back:
  fixes hh :: int
  assumes "0 \<le> hh" "hh < 24"
  shows "js_rem (if hh mod 12 = 0 then 12 else hh mod 12) 12 + (if 12 \<le> hh then 12 else 0) = hh"
proof (cases "12 \<le> hh")
  case True
  have e: "hh = 12 * 1 + (hh - 12)" by simp
  have "hh mod 12 = hh - 12"
    by (rule int_mod_pos_eq [OF e]) (use True assms in linarith)+
  with True assms show ?thesis by (simp add: js_rem_def)
next
  case False
  then have "hh mod 12 = hh" using assms by simp
  with False assms show ?thesis by (simp add: js_rem_def)
qed

text \<open>
  Claim C1, as amended. Let \<open>v\<close> be a value whose zone is a key of the catalogue with
  whole-minute offsets, whose timestamp is minute-aligned, whose resolved offset is one of
  the two catalogue offsets and whose local year has four digits (1000 to 9999). Let \<open>p\<close>
  be a pattern without \<open>LM\<close> that holds a four-digit year token, \<open>MM\<close>, \<open>DD\<close>, \<open>mm\<close> and
  an hour token (\<open>HH\<close>, or \<open>hh\<close> with \<open>aa\<close> or \<open>AA\<close>), in which every \<open>tz\<close> token is the last
  segment or stands before a literal that first occurs after the zone id. When no other
  candidate of the parser is a daylight-flagged exact match for the wall-clock time of
  \<open>v\<close>, \<open>toString (p)\<close> returns a text and \<open>parse\<close> of that text with \<open>p\<close> and the zone of \<open>v\<close>
  returns an object with the timestamp and the timezone of \<open>v\<close>.
\<close>

theorem parse_toString_roundtrip:
  assumes tz: "timezones h (timezone v) = Some z"
    and minutes: "sdt z mod 60 = 0" "dst z mod 60 = 0"
    and aligned: "timestamp v mod 60000 = 0"
    and cache: "cacheHit v = None \<or> cacheHit v = Some (infoAt h (timezone v) (timestamp v))"
    and off: "off = offsetAt h (timezone v) (timestamp v)" "off = sdt z \<or> off = dst z"
    and year: "1000 \<le> year (localFields h v)" "year (localFields h v) \<le> 9999"
    and segs: "segs = tokenizePattern p"
    and lm: "Token T_LM \<notin> set segs"
    and placed: "tzPlaced (timezone v) segs" "trim (timezone v) = timezone v"
    and fields: "Token T_YYYY \<in> set segs \<or> Token T_yyyy \<in> set segs"
      "Token T_MM \<in> set segs" "Token T_DD \<in> set segs" "Token T_mm \<in> set segs"
      "Token T_HH \<in> set segs \<or> Token T_hh \<in> set segs"
      "Token T_hh \<in> set segs \<longrightarrow> Token T_aa \<in> set segs \<or> Token T_AA \<in> set segs"
    and other: "\<forall>offs. (offs = sdt z \<or> offs = dst z) \<and> offs \<noteq> off
                  \<longrightarrow> \<not> exactDaylight h (timezone v) (timestamp v + off * MS_PER_SECOND) offs"
  shows "\<exists>rendered v'. toString h (Some p) None v = (Inr rendered, v')
           \<and> parse h rendered (Some p) (Some (timezone v))
               = Inr \<lparr> timestamp = timestamp v, timezone = timezone v, offsetCache = None \<rparr>"
proof -
  define parts where "parts = localFields h v"
  define tzid where "tzid = timezone v"
  define loc where "loc = chosen_locale h (Some p) None"
  define tk where "tk = tokens_of h loc tzid parts"
  define rendered where "rendered = concat (map (render tk) segs)"
  define local where "local = timestamp v + off * MS_PER_SECOND"
  have parts_local: "parts = utcFields local"
    by (simp add: parts_def localFields_def local_def off(1))
  note r = utcFields_ranges [of local, folded parts_local]
  from r obtain k where k: "daysInMonth (year parts) (month parts) = Some k" "day parts \<le> k"
    by blast
  have day31: "day parts \<le> 31" using daysInMonth_range [OF k(1)] k(2) by simp
  have ranges: "1000 \<le> year parts" "year parts \<le> 9999" "0 \<le> month parts" "month parts \<le> 11"
    "1 \<le> day parts" "day parts \<le> 31" "0 \<le> hour parts" "hour parts < 24"
    "0 \<le> minute parts" "minute parts < 60" "0 \<le> second parts" "second parts < 60"
    using r year day31 by (simp_all add: parts_def)
  have tokenized: "Token T_MM \<in> set (tokenizeFrom [] p)"
    using fields(2) segs by (simp add: tokenizePattern_def)
  have contains: "containsFormattingToken p"
    by (rule tokenize_contains [OF tokenized])
  have nonempty: "p \<noteq> []"
    using contains by auto
  have pattern: "chosen_pattern h (Some p) None = p"
    using contains nonempty by (simp add: chosen_pattern_def)
  have printed: "toString h (Some p) None v
                   = (Inr rendered, withCache v (infoAt h (timezone v) (timestamp v)))"
    unfolding toString_def bindM_def getLocalParts_localFields [OF tz cache]
    by (simp add: pattern replaceTokens_rendered rendered_def tk_def parts_def tzid_def loc_def segs)
  have readable: "k \<noteq> T_LM \<and> (k \<noteq> T_tz \<longrightarrow> length (tk k) = tokenWidth k
                    \<and> (\<exists>n st'. readToken h (tk k) [] 0 st k = Inr (n, st')))"
    if "Token k \<in> set segs" for k st
  proof -
    from that lm have "k \<noteq> T_LM" by auto
    from tokens_readable [OF ranges this, where h = h and loc = loc and tzid = tzid and st = st]
    show ?thesis
      using \<open>k \<noteq> T_LM\<close> by (simp add: tk_def)
  qed
  have zone_text: "tk T_tz = tzid"
    by (simp add: tk_def tokens_of_values(13) [OF ranges])
  have placed': "tzPlaced (tk T_tz) segs"
    using placed(1) by (simp add: zone_text tzid_def)
  let ?st' = "fold (storeRendered h tk) segs emptyState"
  have scan: "scanSegments h rendered segs 0 emptyState = Inr (length rendered, ?st')"
    using scan_rendered_zone [of segs tk h "[]" emptyState, OF readable placed']
    by (simp add: rendered_def)
  note f = fold_tokens [OF ranges lm, of h loc tzid emptyState, folded tk_def]
  have no_mer: "\<not> needsMeridiem segs"
    using fields(6) by (auto simp: needsMeridiem_def list_ex_iff)
  have fmt: "formatOf (Some p) = p"
    using nonempty by (simp add: formatOf_def)
  have parsed: "parse h rendered (Some p) (Some tzid) = finishParse h ?st' (Some tzid)"
    using scan no_mer by (simp add: parse_def fmt segs [symmetric] Let_def)
  have y: "yearOf ?st' = year parts"
    using f(1) fields(1) by (auto simp: yearOf_def)
  have m: "st_month ?st' = Some (month parts + 1)" "st_day ?st' = Some (day parts)"
    "st_minute ?st' = Some (minute parts)"
    using f(2,3,6) fields(2,3,4) by simp_all
  have s: "0 \<le> (case st_second ?st' of Some x \<Rightarrow> x | None \<Rightarrow> 0)"
    "(case st_second ?st' of Some x \<Rightarrow> x | None \<Rightarrow> 0) < 60"
    using f(7) ranges(11,12) by (auto simp: emptyState_def)
  have hr: "hourOf ?st' = Inr (hour parts)"
  proof (cases "Token T_HH \<in> set segs")
    case True
    then show ?thesis using f(4) by (simp add: hourOf_def)
  next
    case False
    with fields(5,6) have hh: "Token T_hh \<in> set segs"
      and ap: "Token T_aa \<in> set segs \<or> Token T_AA \<in> set segs" by auto
    from False f(4) have h24: "st_hour24 ?st' = None" by (simp add: emptyState_def)
    from hh f(5) have h12: "st_hour12 ?st'
        = Some (if hour parts mod 12 = 0 then 12 else hour parts mod 12)" by simp
    from ap f(8,9) obtain w where w: "st_ampm ?st' = Some w" "w \<noteq> []"
      "toUpperCase w = (if 12 \<le> hour parts then ''PM'' else ''AM'')"
      by (cases "st_ampm ?st'") auto
    have pm: "(toUpperCase w = ''PM'') = (12 \<le> hour parts)"
      using w(3) by simp
    show ?thesis
      using hour12_back [OF ranges(7,8)]
      by (simp add: hourOf_def h24 h12 w(1,2) pm)
  qed
  have zn: "zoneOf ?st' (Some tzid) = tzid"
    using f(10) placed(2) by (auto simp: zoneOf_def emptyState_def tzid_def)
  have al: "local mod 60000 = 0"
  proof -
    obtain a where a: "timestamp v = 60000 * a"
      using aligned by (metis mod_eq_0_iff_dvd dvd_def)
    have "off mod 60 = 0" using off(2) minutes by auto
    then obtain b where b: "off = 60 * b" by (metis mod_eq_0_iff_dvd dvd_def)
    have "local = 60000 * (a + b)" by (simp add: local_def a b MS_consts algebra_simps)
    then show ?thesis by simp
  qed
  have yr: "year (utcFields local) < 0 \<or> 99 < year (utcFields local)"
    using ranges(1) by (simp add: parts_local)
  have target: "local = Date_UTC (year parts) (month parts) (day parts) (hour parts)
                  (minute parts) 0"
    using Date_UTC_utcFields_minute [OF yr] floorToMinute_id [OF al]
    by (simp add: parts_local)
  have exact: "offsetAt h tzid (local - off * MS_PER_SECOND) = off"
    by (simp add: local_def tzid_def off(1))
  have other': "\<not> exactDaylight h tzid local offs"
    if "offs = sdt z \<or> offs = dst z" "offs \<noteq> off" for offs
    using other that by (simp add: local_def tzid_def)
  have res: "resolveInstant h tzid (year parts) (month parts) (day parts) (hour parts)
               (minute parts) (case st_second ?st' of Some x \<Rightarrow> x | None \<Rightarrow> 0)
             = Inr \<lparr> timestamp = local - off * MS_PER_SECOND, timezone = tzid,
                     offsetCache = None \<rparr>"
    by (rule resolveInstant_exact [OF tz [folded tzid_def] minutes s target yr off(2) exact other'])
  have "parse h rendered (Some p) (Some tzid)
          = Inr \<lparr> timestamp = timestamp v, timezone = tzid, offsetCache = None \<rparr>"
    unfolding parsed finishParse_def hr zn y
    using res by (simp add: m local_def)
  with printed show ?thesis
    unfolding tzid_def by blast
qed


theorem parse_toString_roundtrip_witness:
  "timezones sample_host ''Europe/Rome'' = Some \<lparr> sdt = 3600, dst = 7200 \<rparr>
   \<and> offsetAt sample_host ''Europe/Rome'' 1625128200000 = 7200
   \<and> localFields sample_host
        \<lparr> timestamp = 1625128200000, timezone = ''Europe/Rome'', offsetCache = None \<rparr>
       = \<lparr> year = 2021, month = 6, day = 1, hour = 10, minute = 30, second = 0 \<rparr>
   \<and> tokenizePattern ''DD/MM/YYYY hh:mm AA [in] tz''
       = [Token T_DD, Literal ''/'', Token T_MM, Literal ''/'', Token T_YYYY, Literal '' '',
          Token T_hh, Literal '':'', Token T_mm, Literal '' '', Token T_AA, Literal '' '',
          Literal ''in'', Literal '' '', Token T_tz]
   \<and> (\<exists>rendered v'.
         toString sample_host (Some ''DD/MM/YYYY hh:mm AA [in] tz'') None
           \<lparr> timestamp = 1625128200000, timezone = ''Europe/Rome'', offsetCache = None \<rparr>
           = (Inr rendered, v')
         \<and> parse sample_host rendered (Some ''DD/MM/YYYY hh:mm AA [in] tz'') (Some ''Europe/Rome'')
           = Inr \<lparr> timestamp = 1625128200000, timezone = ''Europe/Rome'', offsetCache = None \<rparr>)"
proof -
  let ?z = "\<lparr> sdt = 3600, dst = 7200 \<rparr>"
  let ?v = "\<lparr> timestamp = 1625128200000, timezone = ''Europe/Rome'', offsetCache = None \<rparr>"
  let ?p = "''DD/MM/YYYY hh:mm AA [in] tz''"
  let ?segs = "[Token T_DD, Literal ''/'', Token T_MM, Literal ''/'', Token T_YYYY, Literal '' '',
          Token T_hh, Literal '':'', Token T_mm, Literal '' '', Token T_AA, Literal '' '',
          Literal ''in'', Literal '' '', Token T_tz]"
  have tz: "timezones sample_host ''Europe/Rome'' = Some ?z"
    by (simp add: sample_host_def sample_timezones_def)
  have o: "offsetAt sample_host ''Europe/Rome'' 1625128200000 = 7200"
    by code_simp
  have lf: "localFields sample_host ?v
              = \<lparr> year = 2021, month = 6, day = 1, hour = 10, minute = 30, second = 0 \<rparr>"
    by code_simp
  have segs: "tokenizePattern ?p = ?segs"
    by code_simp
  have tr: "trim ''Europe/Rome'' = ''Europe/Rome''"
    by code_simp
  have n: "\<not> exactDaylight sample_host ''Europe/Rome'' 1625135400000 3600"
    by code_simp
  have oth: "\<forall>offs. (offs = sdt ?z \<or> offs = dst ?z) \<and> offs \<noteq> 7200
               \<longrightarrow> \<not> exactDaylight sample_host (timezone ?v)
                     (timestamp ?v + 7200 * MS_PER_SECOND) offs"
  proof (intro allI impI)
    fix offs :: int
    assume "(offs = sdt ?z \<or> offs = dst ?z) \<and> offs \<noteq> 7200"
    then have e: "offs = 3600" by auto
    show "\<not> exactDaylight sample_host (timezone ?v) (timestamp ?v + 7200 * MS_PER_SECOND) offs"
      unfolding e using n by (simp add: MS_consts)
  qed
  have tzv: "timezones sample_host (timezone ?v) = Some ?z"
    using tz by simp
  have mins: "sdt ?z mod 60 = 0" "dst ?z mod 60 = 0"
    by simp_all
  have al: "timestamp ?v mod 60000 = 0"
    by simp
  have cache: "cacheHit ?v = None
                 \<or> cacheHit ?v = Some (infoAt sample_host (timezone ?v) (timestamp ?v))"
    by (simp add: cacheHit_def)
  have off1: "7200 = offsetAt sample_host (timezone ?v) (timestamp ?v)"
    using o by simp
  have off2: "7200 = sdt ?z \<or> 7200 = dst ?z"
    by simp
  have yr: "1000 \<le> year (localFields sample_host ?v)" "year (localFields sample_host ?v) \<le> 9999"
    unfolding lf by simp_all
  have sg: "?segs = tokenizePattern ?p"
    using segs by simp
  have lm: "Token T_LM \<notin> set ?segs"
    by simp
  have pl: "tzPlaced (timezone ?v) ?segs" "trim (timezone ?v) = timezone ?v"
    using tr by simp_all
  have fs: "Token T_YYYY \<in> set ?segs \<or> Token T_yyyy \<in> set ?segs"
    "Token T_MM \<in> set ?segs" "Token T_DD \<in> set ?segs" "Token T_mm \<in> set ?segs"
    "Token T_HH \<in> set ?segs \<or> Token T_hh \<in> set ?segs"
    "Token T_hh \<in> set ?segs \<longrightarrow> Token T_aa \<in> set ?segs \<or> Token T_AA \<in> set ?segs"
    by simp_all
  have "\<exists>rendered v'. toString sample_host (Some ?p) None ?v = (Inr rendered, v')
          \<and> parse sample_host rendered (Some ?p) (Some (timezone ?v))
              = Inr \<lparr> timestamp = timestamp ?v, timezone = timezone ?v, offsetCache = None \<rparr>"
    by (rule parse_toString_roundtrip [OF tzv mins al cache off1 off2 yr sg lm pl fs oth])
  with tz o lf segs show ?thesis by simp
qed

text \<open>
  Claim C1 as the specification states it fails outside the four-digit years: \<open>toString\<close>
  prints the year with all its digits and the \<open>YYYY\<close> slot of the parser reads four
  characters. The value at 1 January 10000, 00:00 in UTC (a zone without transitions)
  prints as \<open>10000-01-01 00:00:00\<close> with the pattern \<open>YYYY-MM-DD HH:mm:ss\<close>, and \<open>parse\<close> of
  that text with the same pattern throws.
\<close>

theorem roundtrip_five_digit_year:
  "timezones sample_host ''UTC'' = Some \<lparr> sdt = 0, dst = 0 \<rparr>
   \<and> fst (toString sample_host (Some ''YYYY-MM-DD HH:mm:ss'') None
          \<lparr> timestamp = 253402300800000, timezone = ''UTC'', offsetCache = None \<rparr>)
       = Inr ''10000-01-01 00:00:00''
   \<and> parse sample_host ''10000-01-01 00:00:00'' (Some ''YYYY-MM-DD HH:mm:ss'') (Some ''UTC'')
       = Inl (PatternMismatch ''-'' 4)"
proof -
  let ?v = "\<lparr> timestamp = 253402300800000, timezone = ''UTC'', offsetCache = None \<rparr>"
  let ?parts = "\<lparr> year = 10000, month = 0, day = 1, hour = 0, minute = 0, second = 0 \<rparr>"
  let ?p = "''YYYY-MM-DD HH:mm:ss''"
  have tz: "timezones sample_host ''UTC'' = Some \<lparr> sdt = 0, dst = 0 \<rparr>"
    by (simp add: sample_host_def sample_timezones_def)
  have lf: "localFields sample_host ?v = ?parts"
    by code_simp
  have parts: "getLocalParts sample_host True ?v
                 = (Inr ?parts, withCache ?v (infoAt sample_host ''UTC'' 253402300800000))"
    using getLocalParts_localFields [of sample_host ?v, OF _ disjI1] tz lf
    by (simp add: cacheHit_def)
  have pat: "chosen_pattern sample_host (Some ?p) None = ?p"
    by code_simp
  have y: "String_of 10000 = ''10000''"
    by (simp add: String_of_def string_of_nat_5 digit_chars)
  have m: "pad 1 2 = ''01''" "pad 0 2 = ''00''"
    using pad_2 [of 1] pad_2 [of 0] by (simp_all add: two_digits_def digit_chars)
  have rt: "replaceTokens (render tk) ?p
              = concat (map (render tk)
                  [Token T_YYYY, Literal ''-'', Token T_MM, Literal ''-'', Token T_DD, Literal '' '',
                   Token T_HH, Literal '':'', Token T_mm, Literal '':'', Token T_ss])" for tk
    by (simp only: replaceTokens_rendered defaultFormat_segments)
  have printed: "fst (toString sample_host (Some ?p) None ?v) = Inr ''10000-01-01 00:00:00''"
    unfolding toString_def bindM_def parts
    by (simp add: pat rt render_simps tokens_of_def Let_def y m del: replaceTokens.simps)
  have parsed: "parse sample_host ''10000-01-01 00:00:00'' (Some ?p) (Some ''UTC'')
                  = Inl (PatternMismatch ''-'' 4)"
    by code_simp
  from tz printed parsed show ?thesis by simp
qed

end
